theory Spec2Isabelle
  imports Main
begin

section \<open>The JavaScript values the hook works with\<close>

text \<open>
  The development embeds \<^verbatim>\<open>src/hooks/useStaffData.js\<close>. Strings are lists of code
  units. A property that may be missing, \<^verbatim>\<open>undefined\<close> or \<^verbatim>\<open>null\<close> is an
  \<open>option\<close>, so that \<^verbatim>\<open>a ?? b\<close> and \<^verbatim>\<open>a || b\<close> are functions on options.

  A plain object is the list of its own properties in creation order. Assigning to an
  existing key keeps the key's place, assigning to a new key appends it. \<open>objGet\<close> reads
  an own property.
\<close>

type_synonym 'v jsobj = "(string \<times> 'v) list"

definition objGet :: "'v jsobj \<Rightarrow> string \<Rightarrow> 'v option" where
  "objGet obj k = map_of obj k"

definition objSet :: "'v jsobj \<Rightarrow> string \<Rightarrow> 'v \<Rightarrow> 'v jsobj" where
  "objSet obj k v =
     (if k \<in> fst ` set obj
      then map (\<lambda>p. if fst p = k then (k, v) else p) obj
      else obj @ [(k, v)])"

text \<open>
  An object made by \<^verbatim>\<open>{}\<close> inherits from \<^verbatim>\<open>Object.prototype\<close>. The read
  \<^verbatim>\<open>obj[k]\<close> gives the own property of the key when the object has one, else the member
  of \<^verbatim>\<open>Object.prototype\<close> of that name when there is one, else \<^verbatim>\<open>undefined\<close>. The
  members are eleven functions and the accessor \<^verbatim>\<open>__proto__\<close>, whose getter returns the
  prototype of the object. Each member is a different object, none is nullish or falsy,
  and none converts to a number.
\<close>

definition protoKeys :: "string list" where
  "protoKeys =
     [''constructor'', ''__defineGetter__'', ''__defineSetter__'', ''hasOwnProperty'',
      ''__lookupGetter__'', ''__lookupSetter__'', ''isPrototypeOf'', ''propertyIsEnumerable'',
      ''toString'', ''valueOf'', ''__proto__'', ''toLocaleString'']"

datatype 'v property = Own 'v | Inherited string | Undefined

definition objRead :: "'v jsobj \<Rightarrow> string \<Rightarrow> 'v property" where
  "objRead obj k =
     (case objGet obj k of
        Some v \<Rightarrow> Own v
      | None \<Rightarrow> if k \<in> set protoKeys then Inherited k else Undefined)"

text \<open>
  The assignment \<^verbatim>\<open>obj[k] = v\<close> creates or updates an own property. The one exception
  is the key \<^verbatim>\<open>__proto__\<close> of an object without an own property of that name: the
  assignment calls the inherited setter, which creates no property; it makes \<open>v\<close> the
  prototype of the object when \<open>v\<close> is an object and does nothing when \<open>v\<close> is a
  number. \<open>objAssign\<close> gives the own properties after the assignment.
\<close>

definition objAssign :: "'v jsobj \<Rightarrow> string \<Rightarrow> 'v \<Rightarrow> 'v jsobj" where
  "objAssign obj k v =
     (if k = ''__proto__'' \<and> k \<notin> fst ` set obj then obj else objSet obj k v)"

text \<open>
  \<^verbatim>\<open>Object.keys\<close>, \<^verbatim>\<open>Object.entries\<close> and \<^verbatim>\<open>for-in\<close> enumerate the own keys
  that are array indices (canonical decimal numerals below \<open>2^32 - 1\<close>) first, in ascending
  numeric order, and the other string keys after them in creation order
  (ECMAScript, OrdinaryOwnPropertyKeys).
\<close>

definition isDigit :: "char \<Rightarrow> bool" where
  "isDigit c = (48 \<le> (of_char c :: nat) \<and> (of_char c :: nat) \<le> 57)"

definition digitsVal :: "string \<Rightarrow> nat" where
  "digitsVal s = foldl (\<lambda>n c. 10 * n + ((of_char c :: nat) - 48)) 0 s"

definition isArrayIndex :: "string \<Rightarrow> bool" where
  "isArrayIndex s =
     (s \<noteq> [] \<and> list_all isDigit s \<and> (s = ''0'' \<or> hd s \<noteq> CHR ''0'')
      \<and> digitsVal s < 4294967295)"

definition Object_keys :: "'v jsobj \<Rightarrow> string list" where
  "Object_keys obj =
     sort_key digitsVal (filter isArrayIndex (map fst obj))
     @ filter (\<lambda>k. \<not> isArrayIndex k) (map fst obj)"

definition Object_entries :: "'v jsobj \<Rightarrow> (string \<times> 'v) list" where
  "Object_entries obj =
     map (\<lambda>k. (k, the (objGet obj k))) (Object_keys obj)"

text \<open>\<^verbatim>\<open>a ?? b\<close> on a possibly missing value, and \<^verbatim>\<open>a || b\<close> on strings and arrays.\<close>

definition nullish :: "'a option \<Rightarrow> 'a \<Rightarrow> 'a" where
  "nullish a b = (case a of None \<Rightarrow> b | Some v \<Rightarrow> v)"

definition orEmptyString :: "string option \<Rightarrow> string" where
  "orEmptyString a = (case a of None \<Rightarrow> '''' | Some v \<Rightarrow> v)"

definition orEmpty :: "'a list option \<Rightarrow> 'a list" where
  "orEmpty a = (case a of None \<Rightarrow> [] | Some xs \<Rightarrow> xs)"

text \<open>
  \<^verbatim>\<open>Array.prototype.sort\<close> with a comparator that returns a number: a negative result
  puts the first argument first, and the sort is stable. It is modelled as a stable
  insertion sort; the comparator's result is an \<open>int\<close> of which only the sign is used
  (\<^verbatim>\<open>NaN\<close> counts as \<open>0\<close>). For a consistent comparator this is the one result ECMAScript
  allows.
\<close>

fun insertSorted :: "('a \<Rightarrow> 'a \<Rightarrow> int) \<Rightarrow> 'a \<Rightarrow> 'a list \<Rightarrow> 'a list" where
  "insertSorted cmp x [] = [x]"
| "insertSorted cmp x (y # ys) =
     (if cmp x y \<le> 0 then x # y # ys else y # insertSorted cmp x ys)"

fun jsSort :: "('a \<Rightarrow> 'a \<Rightarrow> int) \<Rightarrow> 'a list \<Rightarrow> 'a list" where
  "jsSort cmp [] = []"
| "jsSort cmp (x # xs) = insertSorted cmp x (jsSort cmp xs)"

text \<open>
  A roster \<^verbatim>\<open>sortOrder\<close> read through \<^verbatim>\<open>?? Infinity\<close>, where \<open>None\<close> is
  \<^verbatim>\<open>Infinity\<close>. \<open>jsMinus\<close> is the sign of the JavaScript difference,
  \<^verbatim>\<open>Infinity - Infinity\<close> being \<^verbatim>\<open>NaN\<close>.
\<close>

definition jsMinus :: "int option \<Rightarrow> int option \<Rightarrow> int" where
  "jsMinus a b =
     (case (a, b) of
        (Some x, Some y) \<Rightarrow> x - y
      | (None, Some y) \<Rightarrow> 1
      | (Some x, None) \<Rightarrow> - 1
      | (None, None) \<Rightarrow> 0)"

section \<open>The data model\<close>

text \<open>
  A roster entry. The same shape serves for the partial object passed to
  \<^verbatim>\<open>addStaffToList\<close> and \<^verbatim>\<open>updateStaffInList\<close>: a key that is absent is \<open>None\<close>.
  An absent \<^verbatim>\<open>id\<close> is the empty string, which is falsy as well.
\<close>

record staffMember =
  sm_id :: string
  sm_name :: "string option"
  sm_employeeNumber :: "string option"
  sm_defaultUnit :: "string option"
  sm_defaultGroup :: "string option"
  sm_defaultJobTitle :: "string option"
  sm_isActive :: "bool option"
  sm_sortOrder :: "int option"

record shiftType =
  st_code :: string
  st_name :: string
  st_color :: string

record settings =
  units :: "string list option"
  groups :: "string list option"
  jobTitles :: "string list option"
  shiftTypes :: "shiftType list option"
  timeSlots :: "string jsobj option"
  staffList :: "staffMember list option"

record weeklyStaff =
  ws_staffId :: string
  ws_name :: "string option"
  ws_unit :: "string option"
  ws_group :: "string option"
  ws_jobTitle :: "string option"
  ws_shifts :: "string jsobj option"

record weeklySchedule =
  weekStartDate :: string
  staff :: "weeklyStaff list"

text \<open>The entry of the view that \<^verbatim>\<open>getStaffByUnit\<close> builds for one active member. Its
  \<^verbatim>\<open>shifts\<close> are \<^verbatim>\<open>weeklyData?.shifts ?? {}\<close>: a shifts object, or a string where
  \<^verbatim>\<open>weeklyData\<close> is not a record of the week (see \<open>dataShifts\<close> below).\<close>

datatype shiftsValue = ShiftMap "string jsobj" | ShiftText string

record staffEntry =
  e_staffId :: string
  e_name :: "string option"
  e_unit :: string
  e_displayUnit :: string
  e_isOrphanedUnit :: bool
  e_group :: string
  e_displayGroup :: string
  e_isOrphanedGroup :: bool
  e_jobTitle :: string
  e_displayJobTitle :: string
  e_isOrphanedJobTitle :: bool
  e_shifts :: shiftsValue
  e_sortOrder :: "int option"
  e_employeeNumber :: string

section \<open>The merge engine: getStaffByUnit\<close>

text \<open>The literal appended to an orphaned value, \<^verbatim>\<open>" (t\<close>\<open>\<ouml>\<close>\<^verbatim>\<open>r\<close>\<open>\<ouml>\<close>\<^verbatim>\<open>lt)"\<close>
  (Hungarian for "deleted"), with code unit \<open>0xF6\<close> for the letter o with diaeresis.\<close>

definition deletedSuffix :: string where
  "deletedSuffix = '' (t'' @ [CHR 0xF6] @ ''r'' @ [CHR 0xF6] @ ''lt)''"

text \<open>
  The lookup map of the week's records by staff id is built from \<^verbatim>\<open>{}\<close> by the
  assignments \<^verbatim>\<open>map[weeklyStaff.staffId] = weeklyStaff\<close>. A record with the id
  \<^verbatim>\<open>__proto__\<close> becomes the prototype of the map, every other id becomes an own property.
\<close>

record weeklyMap =
  wm_own :: "weeklyStaff jsobj"
  wm_proto :: "weeklyStaff option"

definition weeklyStaffDataMap :: "weeklyStaff list \<Rightarrow> weeklyMap" where
  "weeklyStaffDataMap ws =
     foldl (\<lambda>m weeklyStaff.
              if ws_staffId weeklyStaff = ''__proto__''
              then m \<lparr> wm_proto := Some weeklyStaff \<rparr>
              else m \<lparr> wm_own := objSet (wm_own m) (ws_staffId weeklyStaff) weeklyStaff \<rparr>)
       \<lparr> wm_own = [], wm_proto = None \<rparr> ws"

text \<open>
  What \<^verbatim>\<open>weeklyStaffDataMap[globalStaff.id]\<close> can be: a record of the week; a string
  or a shifts object, when the id names a property of a record that is the prototype of
  the map; a member of \<^verbatim>\<open>Object.prototype\<close>; or \<^verbatim>\<open>undefined\<close>. With a record as
  prototype, \<^verbatim>\<open>__proto__\<close> reads that record.
\<close>

datatype weeklyData = Record weeklyStaff | Text string | Shifts "string jsobj" | Member string | NoData

definition recordProperty :: "weeklyStaff \<Rightarrow> string \<Rightarrow> weeklyData" where
  "recordProperty r k =
     (if k = ''staffId'' then Text (ws_staffId r)
      else if k = ''name'' then (case ws_name r of None \<Rightarrow> NoData | Some v \<Rightarrow> Text v)
      else if k = ''unit'' then (case ws_unit r of None \<Rightarrow> NoData | Some v \<Rightarrow> Text v)
      else if k = ''group'' then (case ws_group r of None \<Rightarrow> NoData | Some v \<Rightarrow> Text v)
      else if k = ''jobTitle'' then (case ws_jobTitle r of None \<Rightarrow> NoData | Some v \<Rightarrow> Text v)
      else if k = ''shifts'' then (case ws_shifts r of None \<Rightarrow> NoData | Some sh \<Rightarrow> Shifts sh)
      else if k \<in> set protoKeys then Member k
      else NoData)"

definition weeklyLookup :: "weeklyMap \<Rightarrow> string \<Rightarrow> weeklyData" where
  "weeklyLookup m k =
     (case objGet (wm_own m) k of
        Some r \<Rightarrow> Record r
      | None \<Rightarrow>
          (case wm_proto m of
             None \<Rightarrow> if k \<in> set protoKeys then Member k else NoData
           | Some p \<Rightarrow> if k = ''__proto__'' then Record p else recordProperty p k))"

text \<open>
  The reads \<^verbatim>\<open>weeklyData?.unit\<close>, \<^verbatim>\<open>?.group\<close>, \<^verbatim>\<open>?.jobTitle\<close> and \<^verbatim>\<open>?.name\<close>:
  the field of a record, the own property of that name of a shifts object, and nothing
  of a string. An inherited function has a \<^verbatim>\<open>name\<close>, which is \<^verbatim>\<open>"Object"\<close> for
  \<^verbatim>\<open>constructor\<close> and the key for the others, and none of the other properties; the
  object \<^verbatim>\<open>Object.prototype\<close>, read by \<^verbatim>\<open>__proto__\<close>, has none of them.
\<close>

definition memberName :: "string \<Rightarrow> string option" where
  "memberName k =
     (if k = ''constructor'' then Some ''Object''
      else if k = ''__proto__'' then None
      else Some k)"

definition dataText :: "weeklyData \<Rightarrow> (weeklyStaff \<Rightarrow> string option) \<Rightarrow> string \<Rightarrow> string option" where
  "dataText d field key =
     (case d of
        Record r \<Rightarrow> field r
      | Shifts sh \<Rightarrow> objGet sh key
      | Member k \<Rightarrow> (if key = ''name'' then memberName k else None)
      | Text s \<Rightarrow> None
      | NoData \<Rightarrow> None)"

text \<open>\<^verbatim>\<open>weeklyData?.shifts\<close>: the shifts object of a record, or the own property
  \<^verbatim>\<open>shifts\<close> of a shifts object, which is a string.\<close>

definition dataShifts :: "weeklyData \<Rightarrow> shiftsValue option" where
  "dataShifts d =
     (case d of
        Record r \<Rightarrow> map_option ShiftMap (ws_shifts r)
      | Shifts sh \<Rightarrow> map_option ShiftText (objGet sh ''shifts'')
      | Member k \<Rightarrow> None
      | Text s \<Rightarrow> None
      | NoData \<Rightarrow> None)"

text \<open>\<^verbatim>\<open>!!weekly && !valid.has(weekly)\<close>: the empty string is falsy.\<close>

definition isOrphaned :: "string list \<Rightarrow> string option \<Rightarrow> bool" where
  "isOrphaned valid weekly =
     (case weekly of None \<Rightarrow> False | Some v \<Rightarrow> v \<noteq> '''' \<and> v \<notin> set valid)"

definition display :: "bool \<Rightarrow> string \<Rightarrow> string" where
  "display orphaned effective = (if orphaned then effective @ deletedSuffix else effective)"

definition combineStaff :: "settings \<Rightarrow> weeklyMap \<Rightarrow> staffMember \<Rightarrow> staffEntry" where
  "combineStaff gs wmap globalStaff =
     (let weeklyData = weeklyLookup wmap (sm_id globalStaff);
          weeklyUnit = dataText weeklyData ws_unit ''unit'';
          globalUnit = nullish (sm_defaultUnit globalStaff) '''';
          effectiveUnit = nullish weeklyUnit globalUnit;
          isOrphanedUnit = isOrphaned (orEmpty (units gs)) weeklyUnit;
          weeklyGroup = dataText weeklyData ws_group ''group'';
          globalGroup = nullish (sm_defaultGroup globalStaff) '''';
          effectiveGroup = nullish weeklyGroup globalGroup;
          isOrphanedGroup = isOrphaned (orEmpty (groups gs)) weeklyGroup;
          weeklyJobTitle = dataText weeklyData ws_jobTitle ''jobTitle'';
          globalJobTitle = nullish (sm_defaultJobTitle globalStaff) '''';
          effectiveJobTitle = nullish weeklyJobTitle globalJobTitle;
          isOrphanedJobTitle = isOrphaned (orEmpty (jobTitles gs)) weeklyJobTitle
      in \<lparr> e_staffId = sm_id globalStaff,
           e_name = (case dataText weeklyData ws_name ''name'' of
                       Some n \<Rightarrow> Some n | None \<Rightarrow> sm_name globalStaff),
           e_unit = effectiveUnit,
           e_displayUnit = display isOrphanedUnit effectiveUnit,
           e_isOrphanedUnit = isOrphanedUnit,
           e_group = effectiveGroup,
           e_displayGroup = display isOrphanedGroup effectiveGroup,
           e_isOrphanedGroup = isOrphanedGroup,
           e_jobTitle = effectiveJobTitle,
           e_displayJobTitle = display isOrphanedJobTitle effectiveJobTitle,
           e_isOrphanedJobTitle = isOrphanedJobTitle,
           e_shifts = nullish (dataShifts weeklyData) (ShiftMap []),
           e_sortOrder = sm_sortOrder globalStaff,
           e_employeeNumber = nullish (sm_employeeNumber globalStaff) '''' \<rparr>)"

text \<open>
  Grouping by effective unit:
  \<^verbatim>\<open>if (!acc[unitKey]) acc[unitKey] = []; acc[unitKey].push(staff)\<close>. For a unit that
  names a member of \<^verbatim>\<open>Object.prototype\<close> the read is the member, which is truthy and
  has no \<^verbatim>\<open>push\<close>: the call throws a \<^verbatim>\<open>TypeError\<close>, and so does
  \<^verbatim>\<open>getStaffByUnit\<close>.
\<close>

datatype jsError = TypeError

definition groupStep :: "staffEntry list jsobj \<Rightarrow> staffEntry \<Rightarrow> jsError + staffEntry list jsobj" where
  "groupStep acc s =
     (case objRead acc (e_unit s) of
        Undefined \<Rightarrow> Inr (objAssign acc (e_unit s) [s])
      | Own bucket \<Rightarrow> Inr (objSet acc (e_unit s) (bucket @ [s]))
      | Inherited k \<Rightarrow> Inl TypeError)"

definition groupedByUnit :: "staffEntry list \<Rightarrow> jsError + staffEntry list jsobj" where
  "groupedByUnit es =
     foldl (\<lambda>acc s. case acc of Inl err \<Rightarrow> Inl err | Inr a \<Rightarrow> groupStep a s) (Inr []) es"

definition createOrderMap :: "string list \<Rightarrow> nat jsobj" where
  "createOrderMap items =
     foldl (\<lambda>m p. objAssign m (snd p) (fst p)) [] (enumerate 0 items)"

text \<open>
  A sort index, \<^verbatim>\<open>map[k] ?? Infinity\<close>: the place of the name in the order map,
  \<^verbatim>\<open>Infinity\<close> for a name the map does not have, and the member itself for a name of
  a member of \<^verbatim>\<open>Object.prototype\<close> that is not an own property of the map. Equality of
  indices is \<^verbatim>\<open>===\<close>. \<open>indexMinus\<close> is the sign of the JavaScript difference, which is
  \<^verbatim>\<open>NaN\<close> for \<^verbatim>\<open>Infinity - Infinity\<close> and whenever a member is involved.
\<close>

datatype sortIndex = Index int | Infinity | MemberIndex string

definition orderIndex :: "nat jsobj \<Rightarrow> string \<Rightarrow> sortIndex" where
  "orderIndex m k =
     (case objRead m k of
        Own i \<Rightarrow> Index (int i)
      | Inherited n \<Rightarrow> MemberIndex n
      | Undefined \<Rightarrow> Infinity)"

definition indexMinus :: "sortIndex \<Rightarrow> sortIndex \<Rightarrow> int" where
  "indexMinus a b =
     (case (a, b) of
        (Index x, Index y) \<Rightarrow> x - y
      | (Infinity, Index y) \<Rightarrow> 1
      | (Index x, Infinity) \<Rightarrow> - 1
      | _ \<Rightarrow> 0)"

definition unitIndex :: "string list \<Rightarrow> string \<Rightarrow> sortIndex" where
  "unitIndex us a =
     (if a = '''' then Infinity
      else if a \<in> set us then orderIndex (createOrderMap us) a
      else Infinity)"

definition unitCompare :: "(string \<Rightarrow> string \<Rightarrow> int) \<Rightarrow> string list \<Rightarrow> string \<Rightarrow> string \<Rightarrow> int" where
  "unitCompare localeCompare us a b =
     (let indexA = unitIndex us a; indexB = unitIndex us b
      in if a = '''' then 1
         else if b = '''' then - 1
         else if indexA = Infinity \<and> indexB \<noteq> Infinity then 1
         else if indexA \<noteq> Infinity \<and> indexB = Infinity then - 1
         else if indexA = Infinity \<and> indexB = Infinity then localeCompare a b
         else indexMinus indexA indexB)"

definition categoryIndex :: "string list \<Rightarrow> bool \<Rightarrow> string \<Rightarrow> sortIndex" where
  "categoryIndex items orphaned v =
     (if \<not> orphaned then orderIndex (createOrderMap items) v else Infinity)"

definition staffCompare ::
  "(string \<Rightarrow> string \<Rightarrow> int) \<Rightarrow> settings \<Rightarrow> staffEntry \<Rightarrow> staffEntry \<Rightarrow> int" where
  "staffCompare localeCompare gs a b =
     (let groupIndexA = categoryIndex (orEmpty (groups gs)) (e_isOrphanedGroup a) (e_group a);
          groupIndexB = categoryIndex (orEmpty (groups gs)) (e_isOrphanedGroup b) (e_group b);
          jobIndexA = categoryIndex (orEmpty (jobTitles gs)) (e_isOrphanedJobTitle a) (e_jobTitle a);
          jobIndexB = categoryIndex (orEmpty (jobTitles gs)) (e_isOrphanedJobTitle b) (e_jobTitle b)
      in if groupIndexA \<noteq> groupIndexB then
           (if groupIndexA = Infinity \<and> groupIndexB \<noteq> Infinity then 1
            else if groupIndexA \<noteq> Infinity \<and> groupIndexB = Infinity then - 1
            else indexMinus groupIndexA groupIndexB)
         else if e_isOrphanedGroup a \<and> e_isOrphanedGroup b
                 \<and> localeCompare (e_group a) (e_group b) \<noteq> 0 then
           localeCompare (e_group a) (e_group b)
         else if jobIndexA \<noteq> jobIndexB then
           (if jobIndexA = Infinity \<and> jobIndexB \<noteq> Infinity then 1
            else if jobIndexA \<noteq> Infinity \<and> jobIndexB = Infinity then - 1
            else indexMinus jobIndexA jobIndexB)
         else if e_isOrphanedJobTitle a \<and> e_isOrphanedJobTitle b
                 \<and> localeCompare (e_jobTitle a) (e_jobTitle b) \<noteq> 0 then
           localeCompare (e_jobTitle a) (e_jobTitle b)
         else if e_sortOrder a \<noteq> e_sortOrder b then jsMinus (e_sortOrder a) (e_sortOrder b)
         else localeCompare (orEmptyString (e_name a)) (orEmptyString (e_name b)))"

definition isActive :: "staffMember \<Rightarrow> bool" where
  "isActive s = (sm_isActive s = Some True)"

definition combinedStaffList :: "settings \<Rightarrow> weeklySchedule option \<Rightarrow> staffEntry list" where
  "combinedStaffList gs sched =
     map (combineStaff gs
            (weeklyStaffDataMap (case sched of None \<Rightarrow> [] | Some w \<Rightarrow> staff w)))
       (filter isActive (orEmpty (staffList gs)))"

definition sortedUnitKeys ::
  "(string \<Rightarrow> string \<Rightarrow> int) \<Rightarrow> settings \<Rightarrow> staffEntry list jsobj \<Rightarrow> string list" where
  "sortedUnitKeys localeCompare gs grouped =
     jsSort (unitCompare localeCompare (orEmpty (units gs))) (Object_keys grouped)"

text \<open>The buckets are sorted and assigned to a new \<^verbatim>\<open>{}\<close> in the order of the sorted
  keys; each key is an own key of \<open>grouped\<close>.\<close>

definition finalSortedResult ::
  "(string \<Rightarrow> string \<Rightarrow> int) \<Rightarrow> settings \<Rightarrow> staffEntry list jsobj \<Rightarrow> staffEntry list jsobj" where
  "finalSortedResult localeCompare gs grouped =
     foldl (\<lambda>res unitKey.
              objAssign res unitKey
                (jsSort (staffCompare localeCompare gs) (orEmpty (objGet grouped unitKey))))
       [] (sortedUnitKeys localeCompare gs grouped)"

text \<open>
  The inputs of \<^verbatim>\<open>getStaffByUnit\<close> are the hook's state: the loaded settings, the
  loaded week and the two loading flags. \<^verbatim>\<open>String.prototype.localeCompare\<close> depends on
  the host's collation and is a parameter. The result is the view, or the error thrown
  while grouping.
\<close>

definition getStaffByUnit ::
  "(string \<Rightarrow> string \<Rightarrow> int) \<Rightarrow> bool \<Rightarrow> bool \<Rightarrow> settings option \<Rightarrow> weeklySchedule option
     \<Rightarrow> jsError + staffEntry list jsobj" where
  "getStaffByUnit localeCompare settingsLoading scheduleLoading globalSettings currentWeeklySchedule =
     (if settingsLoading \<or> scheduleLoading then Inr []
      else case globalSettings of
        None \<Rightarrow> Inr []
      | Some gs \<Rightarrow>
          if filter isActive (orEmpty (staffList gs)) = [] then Inr []
          else case groupedByUnit (combinedStaffList gs currentWeeklySchedule) of
                 Inl err \<Rightarrow> Inl err
               | Inr grouped \<Rightarrow> Inr (finalSortedResult localeCompare gs grouped))"

definition viewEntries :: "staffEntry list jsobj \<Rightarrow> staffEntry list" where
  "viewEntries view = concat (map snd view)"

section \<open>The hook's state and the document store\<close>

text \<open>
  The React state of the hook together with the two kinds of Firestore documents it
  reads and writes: the settings document of the signed-in user and the weekly schedule
  documents, keyed by the week's start date. A write to the store may fail; every
  operation takes the outcome of each write it attempts as a \<open>bool\<close> argument.
  \<^verbatim>\<open>saveError\<close> holds a tag for the message the source sets.
\<close>

datatype saveErr =
    MissingData | SuspiciousCategories | SuspiciousAll | SettingsSaveFailed
  | InvalidStaffAdd | DuplicateStaff | InvalidStaffUpdate | InvalidStaffDelete
  | InvalidWeekly | WeeklySaveFailed | CopyFailed

record hook =
  currentUser :: bool
  globalSettings :: "settings option"
  currentWeeklySchedule :: "weeklySchedule option"
  settingsLoading :: bool
  scheduleLoading :: bool
  saveError :: "saveErr option"
  currentWeekStartDate :: string
  settingsDoc :: "settings option"
  weeklyDocs :: "string \<Rightarrow> weeklySchedule option"

definition bySortOrder :: "staffMember \<Rightarrow> staffMember \<Rightarrow> int" where
  "bySortOrder a b = jsMinus (sm_sortOrder a) (sm_sortOrder b)"

text \<open>The safety check of \<^verbatim>\<open>saveGlobalSettings\<close>, run when settings are loaded.\<close>

definition safetyCheck :: "settings \<Rightarrow> settings \<Rightarrow> saveErr option" where
  "safetyCheck cur newSettings =
     (let newUnits = orEmpty (units newSettings);
          newGroups = orEmpty (groups newSettings);
          newJobTitles = orEmpty (jobTitles newSettings);
          newStaffList = orEmpty (staffList newSettings);
          newShiftTypes = orEmpty (shiftTypes newSettings);
          newTimeSlots = orEmpty (timeSlots newSettings);
          allCategoriesEmpty = (newUnits = [] \<and> newGroups = [] \<and> newJobTitles = []);
          allDataEmpty = (allCategoriesEmpty \<and> newStaffList = [] \<and> newShiftTypes = []
                          \<and> newTimeSlots = [])
      in if \<not> allDataEmpty then
           (let hadData = (orEmpty (units cur) \<noteq> [] \<or> orEmpty (groups cur) \<noteq> []
                           \<or> orEmpty (jobTitles cur) \<noteq> [] \<or> orEmpty (staffList cur) \<noteq> []
                           \<or> orEmpty (shiftTypes cur) \<noteq> [])
            in if hadData \<and> allCategoriesEmpty \<and> (newStaffList \<noteq> [] \<or> newShiftTypes \<noteq> [])
               then Some SuspiciousCategories
               else if hadData \<and> allDataEmpty then Some SuspiciousAll
               else None)
         else None)"

definition settingsToSave :: "settings \<Rightarrow> settings" where
  "settingsToSave newSettings =
     newSettings \<lparr> staffList := Some (jsSort bySortOrder (orEmpty (staffList newSettings))) \<rparr>"

text \<open>\<^verbatim>\<open>setDoc(docRef, data, { merge: true })\<close>: fields of the data replace the
  document's, fields the data lacks stay, and a map field is merged key by key; an empty
  map in the data has no key to merge and replaces the stored map.\<close>

definition mergeField :: "'a option \<Rightarrow> 'a option \<Rightarrow> 'a option" where
  "mergeField old new = (case new of None \<Rightarrow> old | Some v \<Rightarrow> Some v)"

definition mergeDoc :: "settings option \<Rightarrow> settings \<Rightarrow> settings" where
  "mergeDoc old new =
     (case old of
        None \<Rightarrow> new
      | Some d \<Rightarrow>
          \<lparr> units = mergeField (units d) (units new),
            groups = mergeField (groups d) (groups new),
            jobTitles = mergeField (jobTitles d) (jobTitles new),
            shiftTypes = mergeField (shiftTypes d) (shiftTypes new),
            timeSlots = (case timeSlots new of
                           None \<Rightarrow> timeSlots d
                         | Some n \<Rightarrow>
                             if n = [] then Some []
                             else Some (foldl (\<lambda>m p. objSet m (fst p) (snd p))
                                          (orEmpty (timeSlots d)) n)),
            staffList = mergeField (staffList d) (staffList new) \<rparr>)"

definition saveGlobalSettings ::
  "hook \<Rightarrow> settings option \<Rightarrow> bool \<Rightarrow> bool \<Rightarrow> bool \<times> hook" where
  "saveGlobalSettings st newSettings bypassSafetyChecks writeOk =
     (case newSettings of
        None \<Rightarrow> (False, st \<lparr> saveError := Some MissingData \<rparr>)
      | Some new \<Rightarrow>
          if \<not> currentUser st then (False, st \<lparr> saveError := Some MissingData \<rparr>)
          else
            (case (if bypassSafetyChecks then None
                   else case globalSettings st of
                          None \<Rightarrow> None
                        | Some cur \<Rightarrow> safetyCheck cur new) of
               Some err \<Rightarrow> (False, st \<lparr> saveError := Some err \<rparr>)
             | None \<Rightarrow>
                 if writeOk
                 then (True, st \<lparr> saveError := None,
                                  settingsDoc := Some (mergeDoc (settingsDoc st) (settingsToSave new)) \<rparr>)
                 else (False, st \<lparr> saveError := Some SettingsSaveFailed \<rparr>)))"

text \<open>The record \<^verbatim>\<open>saveWeeklySchedule\<close> and \<^verbatim>\<open>updateStaffInWeeklySchedule\<close> store:
  \<^verbatim>\<open>name: s.name || ""\<close> and so on, \<^verbatim>\<open>shifts: s.shifts || {}\<close>.\<close>

definition dataToStore :: "weeklyStaff \<Rightarrow> weeklyStaff" where
  "dataToStore s =
     \<lparr> ws_staffId = ws_staffId s,
       ws_name = Some (orEmptyString (ws_name s)),
       ws_unit = Some (orEmptyString (ws_unit s)),
       ws_group = Some (orEmptyString (ws_group s)),
       ws_jobTitle = Some (orEmptyString (ws_jobTitle s)),
       ws_shifts = Some (nullish (ws_shifts s) []) \<rparr>"

definition saveWeeklySchedule ::
  "hook \<Rightarrow> string \<Rightarrow> weeklySchedule option \<Rightarrow> bool \<Rightarrow> bool \<times> hook" where
  "saveWeeklySchedule st weekStartDateStr newScheduleData writeOk =
     (case newScheduleData of
        None \<Rightarrow> (False, st)
      | Some d \<Rightarrow>
          if \<not> currentUser st then (False, st)
          else if writeOk
          then (True, st \<lparr> saveError := None,
                           weeklyDocs := (weeklyDocs st)
                             (weekStartDateStr \<mapsto>
                                \<lparr> weekStartDate = weekStartDate d,
                                  staff = map dataToStore (staff d) \<rparr>) \<rparr>)
          else (False, st \<lparr> saveError := Some WeeklySaveFailed \<rparr>))"

section \<open>Roster mutations\<close>

text \<open>\<^verbatim>\<open>.map((staff, index) => ({ ...staff, sortOrder: index }))\<close>\<close>

definition reindex :: "staffMember list \<Rightarrow> staffMember list" where
  "reindex xs = map (\<lambda>p. (snd p) \<lparr> sm_sortOrder := Some (int (fst p)) \<rparr>) (enumerate 0 xs)"

text \<open>\<^verbatim>\<open>{ ...staff, ...staffMemberCoreData }\<close>: the keys the second object has win.\<close>

definition spread :: "staffMember \<Rightarrow> staffMember \<Rightarrow> staffMember" where
  "spread s d =
     \<lparr> sm_id = sm_id d,
       sm_name = mergeField (sm_name s) (sm_name d),
       sm_employeeNumber = mergeField (sm_employeeNumber s) (sm_employeeNumber d),
       sm_defaultUnit = mergeField (sm_defaultUnit s) (sm_defaultUnit d),
       sm_defaultGroup = mergeField (sm_defaultGroup s) (sm_defaultGroup d),
       sm_defaultJobTitle = mergeField (sm_defaultJobTitle s) (sm_defaultJobTitle d),
       sm_isActive = mergeField (sm_isActive s) (sm_isActive d),
       sm_sortOrder = mergeField (sm_sortOrder s) (sm_sortOrder d) \<rparr>"

definition addStaffToList :: "hook \<Rightarrow> staffMember \<Rightarrow> bool \<Rightarrow> bool \<times> hook" where
  "addStaffToList st staffMemberCoreData writeOk =
     (case globalSettings st of
        None \<Rightarrow> (False, st \<lparr> saveError := Some InvalidStaffAdd \<rparr>)
      | Some gs \<Rightarrow>
          if sm_id staffMemberCoreData = [] then (False, st \<lparr> saveError := Some InvalidStaffAdd \<rparr>)
          else if list_ex (\<lambda>s. sm_id s = sm_id staffMemberCoreData) (orEmpty (staffList gs))
          then (False, st \<lparr> saveError := Some DuplicateStaff \<rparr>)
          else
            (let newStaffList =
                   jsSort bySortOrder
                     (orEmpty (staffList gs)
                      @ [staffMemberCoreData
                           \<lparr> sm_sortOrder :=
                               Some (nullish (sm_sortOrder staffMemberCoreData)
                                       (int (length (orEmpty (staffList gs))))) \<rparr>])
             in saveGlobalSettings st (Some (gs \<lparr> staffList := Some newStaffList \<rparr>)) False writeOk))"

definition updateStaffInList :: "hook \<Rightarrow> staffMember \<Rightarrow> bool \<Rightarrow> bool \<times> hook" where
  "updateStaffInList st staffMemberCoreData writeOk =
     (case globalSettings st of
        None \<Rightarrow> (False, st \<lparr> saveError := Some InvalidStaffUpdate \<rparr>)
      | Some gs \<Rightarrow>
          if sm_id staffMemberCoreData = [] then (False, st \<lparr> saveError := Some InvalidStaffUpdate \<rparr>)
          else
            (let newStaffList =
                   jsSort bySortOrder
                     (map (\<lambda>s. if sm_id s = sm_id staffMemberCoreData
                                then spread s staffMemberCoreData else s)
                        (orEmpty (staffList gs)))
             in saveGlobalSettings st (Some (gs \<lparr> staffList := Some newStaffList \<rparr>)) False writeOk))"

definition updateStaffListOrder :: "hook \<Rightarrow> staffMember list \<Rightarrow> bool \<Rightarrow> bool \<times> hook" where
  "updateStaffListOrder st orderedStaffList writeOk =
     (case globalSettings st of
        None \<Rightarrow> (False, st)
      | Some gs \<Rightarrow>
          saveGlobalSettings st (Some (gs \<lparr> staffList := Some (reindex orderedStaffList) \<rparr>))
            False writeOk)"

section \<open>Weekly schedule mutations\<close>

definition defaultWeeklySchedule :: "string \<Rightarrow> weeklySchedule" where
  "defaultWeeklySchedule startDate = \<lparr> weekStartDate = startDate, staff = [] \<rparr>"

text \<open>\<^verbatim>\<open>Array.prototype.findIndex\<close>, with \<open>None\<close> for \<open>-1\<close>.\<close>

fun findIndex :: "('a \<Rightarrow> bool) \<Rightarrow> 'a list \<Rightarrow> nat option" where
  "findIndex P [] = None"
| "findIndex P (x # xs) = (if P x then Some 0 else map_option Suc (findIndex P xs))"

definition baseSchedule :: "hook \<Rightarrow> weeklySchedule" where
  "baseSchedule st =
     (case currentWeeklySchedule st of
        Some w \<Rightarrow> w
      | None \<Rightarrow> defaultWeeklySchedule (currentWeekStartDate st))"

definition newStaffArray :: "weeklySchedule \<Rightarrow> weeklyStaff \<Rightarrow> weeklyStaff list" where
  "newStaffArray base staffMemberWeeklyData =
     (case findIndex (\<lambda>s. ws_staffId s = ws_staffId staffMemberWeeklyData) (staff base) of
        Some existingIndex \<Rightarrow> (staff base) [existingIndex := dataToStore staffMemberWeeklyData]
      | None \<Rightarrow> staff base @ [dataToStore staffMemberWeeklyData])"

definition updateStaffInWeeklySchedule :: "hook \<Rightarrow> weeklyStaff \<Rightarrow> bool \<Rightarrow> hook" where
  "updateStaffInWeeklySchedule st staffMemberWeeklyData writeOk =
     (if ws_staffId staffMemberWeeklyData = [] then st \<lparr> saveError := Some InvalidWeekly \<rparr>
      else
        (let newSchedule =
               (baseSchedule st)
                 \<lparr> staff := newStaffArray (baseSchedule st) staffMemberWeeklyData \<rparr>
         in snd (saveWeeklySchedule (st \<lparr> currentWeeklySchedule := Some newSchedule \<rparr>)
                   (currentWeekStartDate st) (Some newSchedule) writeOk)))"

definition removeStaffFromWeeklySchedule :: "hook \<Rightarrow> string \<Rightarrow> bool \<Rightarrow> hook" where
  "removeStaffFromWeeklySchedule st staffId writeOk =
     (case currentWeeklySchedule st of
        None \<Rightarrow> st
      | Some w \<Rightarrow>
          if \<not> list_ex (\<lambda>s. ws_staffId s = staffId) (staff w) then st
          else
            (let newSchedule = w \<lparr> staff := filter (\<lambda>s. ws_staffId s \<noteq> staffId) (staff w) \<rparr>
             in snd (saveWeeklySchedule (st \<lparr> currentWeeklySchedule := Some newSchedule \<rparr>)
                       (currentWeekStartDate st) (Some newSchedule) writeOk)))"

text \<open>\<^verbatim>\<open>deleteStaffFromList\<close> attempts two writes: the settings and, when the member has
  a record in the loaded week, that week.\<close>

definition deleteStaffFromList :: "hook \<Rightarrow> string \<Rightarrow> bool \<Rightarrow> bool \<Rightarrow> bool \<times> hook" where
  "deleteStaffFromList st staffId settingsWriteOk weekWriteOk =
     (case globalSettings st of
        None \<Rightarrow> (False, st \<lparr> saveError := Some InvalidStaffDelete \<rparr>)
      | Some gs \<Rightarrow>
          if staffId = [] then (False, st \<lparr> saveError := Some InvalidStaffDelete \<rparr>)
          else
            (let newStaffList =
                   reindex (filter (\<lambda>s. sm_id s \<noteq> staffId) (orEmpty (staffList gs)));
                 saved = saveGlobalSettings st (Some (gs \<lparr> staffList := Some newStaffList \<rparr>))
                           False settingsWriteOk
             in if fst saved
                   \<and> (case currentWeeklySchedule st of
                         None \<Rightarrow> False
                       | Some w \<Rightarrow> list_ex (\<lambda>s. ws_staffId s = staffId) (staff w))
                then (fst saved, removeStaffFromWeeklySchedule (snd saved) staffId weekWriteOk)
                else saved))"

section \<open>The schedule copy engine\<close>






section \<open>The specification's vocabulary\<close>

text \<open>
  The weekly override record of a member, in the words of the specification: the record
  of the week whose \<^verbatim>\<open>staffId\<close> is the member's id (the last one, should the week hold
  several).
\<close>

definition overrideRecord :: "weeklySchedule option \<Rightarrow> string \<Rightarrow> weeklyStaff option" where
  "overrideRecord sched sid =
     (case sched of None \<Rightarrow> None | Some w \<Rightarrow> find (\<lambda>r. ws_staffId r = sid) (rev (staff w)))"

text \<open>The value a weekly override supplies for a field: none without a record, and none
  when the record lacks the field.\<close>

definition overrideValue ::
  "weeklySchedule option \<Rightarrow> string \<Rightarrow> (weeklyStaff \<Rightarrow> 'a option) \<Rightarrow> 'a option" where
  "overrideValue sched sid field =
     (case overrideRecord sched sid of None \<Rightarrow> None | Some r \<Rightarrow> field r)"

text \<open>The effective value: the override's value when it supplies one, else the roster
  default (the empty string when the roster has none).\<close>

definition effectiveValue :: "string option \<Rightarrow> string option \<Rightarrow> string" where
  "effectiveValue override rosterDefault =
     (case override of Some v \<Rightarrow> v | None \<Rightarrow> orEmptyString rosterDefault)"

text \<open>
  A key is plain when it does not name a member of \<^verbatim>\<open>Object.prototype\<close>. The inputs
  of the view are plain when the ids and the default units of the active roster members
  and the ids and the units of the week's records are.
\<close>

definition plainKey :: "string \<Rightarrow> bool" where
  "plainKey k = (k \<notin> set protoKeys)"

definition plainInputs :: "settings option \<Rightarrow> weeklySchedule option \<Rightarrow> bool" where
  "plainInputs gso sched =
     (list_all (\<lambda>g. plainKey (sm_id g) \<and> plainKey (orEmptyString (sm_defaultUnit g)))
        (filter isActive (case gso of None \<Rightarrow> [] | Some gs \<Rightarrow> orEmpty (staffList gs)))
      \<and> list_all (\<lambda>r. plainKey (ws_staffId r) \<and> plainKey (orEmptyString (ws_unit r)))
          (case sched of None \<Rightarrow> [] | Some w \<Rightarrow> staff w))"

text \<open>The roster the view is built from.\<close>

definition roster :: "settings option \<Rightarrow> staffMember list" where
  "roster gso = (case gso of None \<Rightarrow> [] | Some gs \<Rightarrow> orEmpty (staffList gs))"

definition categories :: "(settings \<Rightarrow> string list option) \<Rightarrow> settings option \<Rightarrow> string list" where
  "categories field gso =
     (case gso of None \<Rightarrow> [] | Some gs \<Rightarrow> orEmpty (field gs))"

text \<open>An entry is in the view when the bucket of its unit holds it.\<close>

definition inView :: "staffEntry list jsobj \<Rightarrow> staffEntry \<Rightarrow> bool" where
  "inView view e = (case objGet view (e_unit e) of None \<Rightarrow> False | Some bucket \<Rightarrow> e \<in> set bucket)"

text \<open>Dense sort orders: the \<open>i\<close>-th member of the list has \<^verbatim>\<open>sortOrder\<close> \<open>i\<close>.\<close>

definition dense :: "staffMember list \<Rightarrow> bool" where
  "dense xs = (map sm_sortOrder xs = map (\<lambda>i. Some (int i)) [0..<length xs])"

definition persistedStaffList :: "hook \<Rightarrow> staffMember list" where
  "persistedStaffList st = roster (settingsDoc st)"

text \<open>
  In the words of the specification: the entry \<open>e\<close> carries the effective values of the
  roster member \<open>g\<close> for the week.
\<close>

definition carriesEffectiveValues :: "weeklySchedule option \<Rightarrow> staffMember \<Rightarrow> staffEntry \<Rightarrow> bool" where
  "carriesEffectiveValues sched g e =
     (e_staffId e = sm_id g
      \<and> e_unit e = effectiveValue (overrideValue sched (sm_id g) ws_unit) (sm_defaultUnit g)
      \<and> e_group e = effectiveValue (overrideValue sched (sm_id g) ws_group) (sm_defaultGroup g)
      \<and> e_jobTitle e
          = effectiveValue (overrideValue sched (sm_id g) ws_jobTitle) (sm_defaultJobTitle g)
      \<and> e_name e = (case overrideValue sched (sm_id g) ws_name of
                      Some n \<Rightarrow> Some n | None \<Rightarrow> sm_name g)
      \<and> e_shifts e = ShiftMap (case overrideValue sched (sm_id g) ws_shifts of
                                  Some sh \<Rightarrow> sh | None \<Rightarrow> []))"

text \<open>In the words of claim C9: a stored record has every field, and it is stored from
  the record \<open>s\<close> when each field is the value of \<open>s\<close>, or empty where \<open>s\<close> has none.\<close>

definition complete :: "weeklyStaff \<Rightarrow> bool" where
  "complete r =
     (ws_name r \<noteq> None \<and> ws_unit r \<noteq> None \<and> ws_group r \<noteq> None \<and> ws_jobTitle r \<noteq> None
      \<and> ws_shifts r \<noteq> None)"

definition storedFrom :: "weeklyStaff \<Rightarrow> weeklyStaff \<Rightarrow> bool" where
  "storedFrom s r =
     (ws_staffId r = ws_staffId s
      \<and> ws_name r = Some (case ws_name s of None \<Rightarrow> [] | Some v \<Rightarrow> v)
      \<and> ws_unit r = Some (case ws_unit s of None \<Rightarrow> [] | Some v \<Rightarrow> v)
      \<and> ws_group r = Some (case ws_group s of None \<Rightarrow> [] | Some v \<Rightarrow> v)
      \<and> ws_jobTitle r = Some (case ws_jobTitle s of None \<Rightarrow> [] | Some v \<Rightarrow> v)
      \<and> ws_shifts r = Some (case ws_shifts s of None \<Rightarrow> [] | Some m \<Rightarrow> m))"

text \<open>The settings hold data, and settings that lose every category while staff or shift
  types remain, as the safety check of a wholesale save words them.\<close>

definition hadData :: "settings \<Rightarrow> bool" where
  "hadData cur =
     (orEmpty (units cur) \<noteq> [] \<or> orEmpty (groups cur) \<noteq> [] \<or> orEmpty (jobTitles cur) \<noteq> []
      \<or> orEmpty (staffList cur) \<noteq> [] \<or> orEmpty (shiftTypes cur) \<noteq> [])"

definition wipesCategories :: "settings \<Rightarrow> bool" where
  "wipesCategories new =
     (orEmpty (units new) = [] \<and> orEmpty (groups new) = [] \<and> orEmpty (jobTitles new) = []
      \<and> (orEmpty (staffList new) \<noteq> [] \<or> orEmpty (shiftTypes new) \<noteq> []))"






text \<open>
  The order of the unit buckets in the words of the specification: units of the category
  list come first, by their place in the list; other names follow, ordered among
  themselves by \<^verbatim>\<open>localeCompare\<close>; the empty name is last.
\<close>

definition position :: "string list \<Rightarrow> string \<Rightarrow> nat" where
  "position us k = length (takeWhile (\<lambda>u. u \<noteq> k) us)"

definition unitRank :: "string list \<Rightarrow> string \<Rightarrow> nat" where
  "unitRank us k = (if k = [] then 2 else if k \<in> set us then 0 else 1)"

definition unitBefore :: "(string \<Rightarrow> string \<Rightarrow> int) \<Rightarrow> string list \<Rightarrow> string \<Rightarrow> string \<Rightarrow> bool" where
  "unitBefore localeCompare us a b =
     (unitRank us a < unitRank us b
      \<or> (unitRank us a = unitRank us b
          \<and> (if unitRank us a = 0 then position us a \<le> position us b
               else if unitRank us a = 1 then localeCompare a b \<le> 0
               else True)))"

text \<open>
  The order of the entries of a bucket in the words of the specification. A value of a
  category list comes by its place in the list, a value that is not of the list comes
  after all that are, and two such values are ordered by \<^verbatim>\<open>localeCompare\<close>. Entries are
  ordered by group, then by job title, then by roster \<^verbatim>\<open>sortOrder\<close>, then by name.
  As for a comparator, a negative number puts the first argument first.
\<close>

definition lexInt :: "int \<Rightarrow> int \<Rightarrow> int" where
  "lexInt x y = (if x \<noteq> 0 then x else y)"

definition categoryOrder :: "(string \<Rightarrow> string \<Rightarrow> int) \<Rightarrow> string list \<Rightarrow> string \<Rightarrow> string \<Rightarrow> int" where
  "categoryOrder localeCompare cats a b =
     (if a \<in> set cats \<and> b \<in> set cats then int (position cats a) - int (position cats b)
      else if a \<in> set cats then - 1
      else if b \<in> set cats then 1
      else localeCompare a b)"

definition staffOrder ::
  "(string \<Rightarrow> string \<Rightarrow> int) \<Rightarrow> settings \<Rightarrow> staffEntry \<Rightarrow> staffEntry \<Rightarrow> int" where
  "staffOrder localeCompare gs a b =
     lexInt (categoryOrder localeCompare (orEmpty (groups gs)) (e_group a) (e_group b))
       (lexInt (categoryOrder localeCompare (orEmpty (jobTitles gs)) (e_jobTitle a) (e_jobTitle b))
          (lexInt (jsMinus (e_sortOrder a) (e_sortOrder b))
             (localeCompare (orEmptyString (e_name a)) (orEmptyString (e_name b)))))"

text \<open>A consistent comparator on a set, as ECMAScript asks of the argument of
  \<^verbatim>\<open>Array.prototype.sort\<close>.\<close>

definition consistent :: "('a \<Rightarrow> 'a \<Rightarrow> int) \<Rightarrow> 'a set \<Rightarrow> bool" where
  "consistent c A =
     ((\<forall>a \<in> A. c a a = 0)
      \<and> (\<forall>a \<in> A. \<forall>b \<in> A. (c a b < 0) = (0 < c b a))
      \<and> (\<forall>a \<in> A. \<forall>b \<in> A. \<forall>d \<in> A. c a b \<le> 0 \<longrightarrow> c b d \<le> 0 \<longrightarrow> c a d \<le> 0))"

text \<open>Every value of the entry that is not a category is flagged as orphaned: the entry
  has no empty group or job title and none that comes from a roster default naming a
  deleted category.\<close>

definition flagged :: "settings \<Rightarrow> staffEntry \<Rightarrow> bool" where
  "flagged gs e =
     ((e_group e \<in> set (orEmpty (groups gs)) \<or> e_isOrphanedGroup e)
      \<and> (e_jobTitle e \<in> set (orEmpty (jobTitles gs)) \<or> e_isOrphanedJobTitle e))"

section \<open>Concrete inputs\<close>

text \<open>
  A comparator for the concrete inputs below: it orders strings by their code units, which
  on upper-case ASCII letters is the alphabetical order \<^verbatim>\<open>localeCompare\<close> gives.
\<close>

fun codeUnitCompare :: "string \<Rightarrow> string \<Rightarrow> int" where
  "codeUnitCompare [] [] = 0"
| "codeUnitCompare [] (y # ys) = - 1"
| "codeUnitCompare (x # xs) [] = 1"
| "codeUnitCompare (x # xs) (y # ys) =
     (if (of_char x :: nat) < of_char y then - 1
      else if (of_char y :: nat) < of_char x then 1
      else codeUnitCompare xs ys)"

definition member :: "string \<Rightarrow> string \<Rightarrow> string \<Rightarrow> string \<Rightarrow> bool \<Rightarrow> int \<Rightarrow> staffMember" where
  "member i u g j a n =
     \<lparr> sm_id = i, sm_name = Some i, sm_employeeNumber = None, sm_defaultUnit = Some u,
       sm_defaultGroup = Some g, sm_defaultJobTitle = Some j, sm_isActive = Some a,
       sm_sortOrder = Some n \<rparr>"

definition mkSettings ::
  "string list \<Rightarrow> string list \<Rightarrow> string list \<Rightarrow> staffMember list \<Rightarrow> settings" where
  "mkSettings us gs js ms =
     \<lparr> units = Some us, groups = Some gs, jobTitles = Some js, shiftTypes = Some [],
       timeSlots = Some [], staffList = Some ms \<rparr>"

text \<open>Two units, one group, one job title; two active members and an inactive one.\<close>

definition rosterA :: "staffMember list" where
  "rosterA = [member ''s1'' ''I'' ''G'' ''J'' True 0,
              member ''s2'' ''I'' ''G'' ''J'' False 1,
              member ''s3'' ''II'' ''G'' ''J'' True 2]"

definition settingsA :: settings where
  "settingsA = mkSettings [''I'', ''II''] [''G''] [''J''] rosterA"

text \<open>A week in which \<open>s1\<close> has an override: the unit set to the empty string, a group
  that is no longer a category, and no job title.\<close>

definition weekA :: weeklySchedule where
  "weekA = \<lparr> weekStartDate = ''2024-06-10'',
             staff = [\<lparr> ws_staffId = ''s1'', ws_name = None, ws_unit = Some [],
                        ws_group = Some ''Gone'', ws_jobTitle = None,
                        ws_shifts = Some [(''2024-06-10'', ''DE'')] \<rparr>] \<rparr>"

text \<open>A roster without an active member.\<close>

definition settingsIdle :: settings where
  "settingsIdle = mkSettings [''I''] [] [] [member ''s1'' ''I'' [] [] False 0]"

text \<open>Two units, of which the second is named by a numeral; one active member in each.\<close>

definition settingsNumeral :: settings where
  "settingsNumeral =
     mkSettings [''B'', ''1''] [] []
       [member ''s1'' ''B'' [] [] True 0, member ''s2'' ''1'' [] [] True 1]"

text \<open>
  A unit named \<^verbatim>\<open>constructor\<close>, with one active member in it; and a roster whose one
  active member has the id \<^verbatim>\<open>constructor\<close> and the name \<open>Anna\<close>.
\<close>

definition settingsProtoUnit :: settings where
  "settingsProtoUnit =
     mkSettings [''constructor''] [] [] [member ''s1'' ''constructor'' [] [] True 0]"

definition settingsProtoId :: settings where
  "settingsProtoId =
     mkSettings [''I''] [] []
       [(member ''constructor'' ''I'' [] [] True 0) \<lparr> sm_name := Some ''Anna'' \<rparr>]"

text \<open>
  Three active members of one unit, without a default group. In the week, \<open>s1\<close> and
  \<open>s3\<close> have a record as \<^verbatim>\<open>updateStaffInWeeklySchedule\<close> stores it, with the groups
  \<open>Z\<close> and \<open>X\<close>, neither of which is a category.
\<close>

definition settingsCycle :: settings where
  "settingsCycle =
     mkSettings [''U''] [''G''] []
       [member ''s1'' ''U'' [] [] True 0, member ''s2'' ''U'' [] [] True 1,
        member ''s3'' ''U'' [] [] True 2]"

definition weekCycle :: weeklySchedule where
  "weekCycle =
     \<lparr> weekStartDate = ''2024-06-10'',
       staff = [\<lparr> ws_staffId = ''s1'', ws_name = Some ''s1'', ws_unit = Some ''U'',
                  ws_group = Some ''Z'', ws_jobTitle = Some [], ws_shifts = Some [] \<rparr>,
                \<lparr> ws_staffId = ''s3'', ws_name = Some ''s3'', ws_unit = Some ''U'',
                  ws_group = Some ''X'', ws_jobTitle = Some [], ws_shifts = Some [] \<rparr>] \<rparr>"

text \<open>A signed-in session with \<open>settingsA\<close> loaded and stored, showing the week \<open>weekA\<close>;
  a second week is stored as well.\<close>

definition weekOther :: weeklySchedule where
  "weekOther = \<lparr> weekStartDate = ''2024-06-03'',
                 staff = [\<lparr> ws_staffId = ''s1'', ws_name = Some ''s1'', ws_unit = Some ''I'',
                            ws_group = Some ''G'', ws_jobTitle = Some ''J'',
                            ws_shifts = Some [(''2024-06-03'', ''DU'')] \<rparr>] \<rparr>"

definition hookA :: hook where
  "hookA = \<lparr> currentUser = True, globalSettings = Some settingsA,
             currentWeeklySchedule = Some weekA, settingsLoading = False,
             scheduleLoading = False, saveError = None,
             currentWeekStartDate = ''2024-06-10'', settingsDoc = Some settingsA,
             weeklyDocs = [''2024-06-10'' \<mapsto> weekA, ''2024-06-03'' \<mapsto> weekOther] \<rparr>"

text \<open>Settings that keep the roster and drop every category.\<close>

definition settingsWiped :: settings where
  "settingsWiped = mkSettings [] [] [] rosterA"

text \<open>Weekly data for \<open>s3\<close> that leaves the unit, the job title and the shifts out.\<close>

definition dataB :: weeklyStaff where
  "dataB = \<lparr> ws_staffId = ''s3'', ws_name = Some ''s3'', ws_unit = None, ws_group = Some ''G'',
              ws_jobTitle = None, ws_shifts = None \<rparr>"

text \<open>A new member that brings a \<^verbatim>\<open>sortOrder\<close> of its own, and one that brings none.\<close>

definition memberWithOrder :: staffMember where
  "memberWithOrder = member ''s9'' ''I'' ''G'' ''J'' True 0"

definition memberNoOrder :: staffMember where
  "memberNoOrder = (member ''s9'' ''I'' ''G'' ''J'' True 0) \<lparr> sm_sortOrder := None \<rparr>"

text \<open>A patch that renames \<open>s3\<close>.\<close>

definition patchName :: staffMember where
  "patchName = \<lparr> sm_id = ''s3'', sm_name = Some ''renamed'', sm_employeeNumber = None,
                 sm_defaultUnit = None, sm_defaultGroup = None, sm_defaultJobTitle = None,
                 sm_isActive = None, sm_sortOrder = None \<rparr>"







text \<open>
  The settings and the week of the repository's tests for \<^verbatim>\<open>getStaffByUnit\<close>
  (\<^verbatim>\<open>mockGlobalSettingsData\<close> and \<^verbatim>\<open>mockWeeklyScheduleData\<close>; letters outside ASCII
  are written by their code units). The shifts are left out, no test of the view reads
  them.
\<close>

definition mockMember ::
  "string \<Rightarrow> string \<Rightarrow> string \<Rightarrow> string \<Rightarrow> string \<Rightarrow> bool \<Rightarrow> int \<Rightarrow> string \<Rightarrow> staffMember" where
  "mockMember i n u g j a k e =
     \<lparr> sm_id = i, sm_name = Some n, sm_employeeNumber = Some e, sm_defaultUnit = Some u,
       sm_defaultGroup = Some g, sm_defaultJobTitle = Some j, sm_isActive = Some a,
       sm_sortOrder = Some k \<rparr>"

definition mockOverride :: "string \<Rightarrow> string \<Rightarrow> string \<Rightarrow> string \<Rightarrow> string \<Rightarrow> weeklyStaff" where
  "mockOverride i n u g j =
     \<lparr> ws_staffId = i, ws_name = Some n, ws_unit = Some u, ws_group = Some g,
       ws_jobTitle = Some j, ws_shifts = Some [] \<rparr>"

definition suni :: string where "suni = ''S'' @ [CHR 0xFC] @ ''ni (A)''"
definition maci :: string where "maci = ''Maci (B)''"
definition csibe :: string where "csibe = ''Csibe (A)''"
definition kgyn :: string where "kgyn = ''k.gy.n.''"
definition dajka :: string where "dajka = ''dajka''"
definition szakacs :: string where "szakacs = ''szak'' @ [CHR 0xE1] @ ''cs''"
definition nagyMaria :: string where "nagyMaria = ''Nagy M'' @ [CHR 0xE1] @ ''ria''"
definition vargaPal :: string where "vargaPal = ''Varga P'' @ [CHR 0xE1] @ ''l''"
definition kissJozsefne :: string where
  "kissJozsefne = ''Kiss J'' @ [CHR 0xF3] @ ''zsefn'' @ [CHR 0xE9]"
definition kovacsIstvan :: string where
  "kovacsIstvan = ''Kov'' @ [CHR 0xE1] @ ''cs Istv'' @ [CHR 0xE1] @ ''n''"

definition mockGlobalSettingsData :: settings where
  "mockGlobalSettingsData =
     \<lparr> units = Some [''I.'', ''II.'', ''Konyha''],
       groups = Some [suni, maci, csibe],
       jobTitles = Some [kgyn, dajka, szakacs],
       shiftTypes = Some [], timeSlots = Some [],
       staffList = Some
         [mockMember ''s1'' nagyMaria ''I.'' suni kgyn True 0 ''1'',
          mockMember ''s2'' kissJozsefne ''I.'' suni dajka True 1 ''2'',
          mockMember ''s3'' kovacsIstvan ''Konyha'' [] szakacs True 2 ''K1'',
          mockMember ''s4'' ''Inactive User'' ''II.'' csibe kgyn False 3 ''4'',
          mockMember ''s5'' vargaPal ''I.'' maci kgyn True 4 ''5'',
          mockMember ''s6'' ''Orphan Test'' ''Orphaned Unit'' ''Orphaned Group'' ''Orphaned Job''
            True 5 ''6'',
          mockMember ''s7'' ''Job Title Sort Test 1'' ''II.'' csibe szakacs True 6 ''7'',
          mockMember ''s8'' ''Job Title Sort Test 2'' ''II.'' csibe dajka True 7 ''8''] \<rparr>"

definition mockWeeklyScheduleData :: weeklySchedule where
  "mockWeeklyScheduleData =
     \<lparr> weekStartDate = ''2024-06-10'',
       staff = [mockOverride ''s1'' nagyMaria ''I.'' suni kgyn,
                mockOverride ''s2'' (kissJozsefne @ '' Weekly'') ''II.'' csibe kgyn,
                mockOverride ''s6'' ''Orphan Test'' ''Orphaned Unit'' ''Orphaned Group''
                  ''Orphaned Job''] \<rparr>"

section \<open>Properties of the object and sort models\<close>

lemma map_of_replace:
  "map_of (map (\<lambda>p. if fst p = k then (k, v) else p) obj) k' =
     (if k' = k then (if k \<in> fst ` set obj then Some v else None) else map_of obj k')"
  by (induction obj) force+

lemma objGet_objSet: "objGet (objSet obj k v) k' = (if k' = k then Some v else objGet obj k')"
  unfolding objGet_def objSet_def
  by (auto simp: map_of_replace map_add_def map_of_eq_None_iff split: option.splits)
     (metis map_of_eq_None_iff option.distinct(1))+

lemma keys_objSet:
  "map fst (objSet obj k v) = (if k \<in> fst ` set obj then map fst obj else map fst obj @ [k])"
  by (induction obj) (auto simp: objSet_def)

lemma objGet_None_iff: "objGet obj k = None \<longleftrightarrow> k \<notin> fst ` set obj"
  by (simp add: objGet_def map_of_eq_None_iff)

lemma objSet_fresh: "k \<notin> fst ` set obj \<Longrightarrow> objSet obj k v = obj @ [(k, v)]"
  by (simp add: objSet_def)

subsection \<open>Sorting permutes\<close>

lemma set_insertSorted: "set (insertSorted cmp x ys) = insert x (set ys)"
  by (induction ys) auto

lemma set_jsSort: "set (jsSort cmp xs) = set xs"
  by (induction xs) (auto simp: set_insertSorted)

lemma distinct_insertSorted: "distinct (insertSorted cmp x ys) \<longleftrightarrow> x \<notin> set ys \<and> distinct ys"
  by (induction ys) (auto simp: set_insertSorted)

lemma distinct_jsSort: "distinct (jsSort cmp xs) \<longleftrightarrow> distinct xs"
  by (induction xs) (auto simp: distinct_insertSorted set_jsSort)

lemma length_insertSorted: "length (insertSorted cmp x ys) = Suc (length ys)"
  by (induction ys) auto

lemma length_jsSort: "length (jsSort cmp xs) = length xs"
  by (induction xs) (auto simp: length_insertSorted)

lemma set_Object_keys: "set (Object_keys obj) = fst ` set obj"
  by (auto simp: Object_keys_def)

lemma distinct_Object_keys: "distinct (map fst obj) \<Longrightarrow> distinct (Object_keys obj)"
  by (auto simp: Object_keys_def distinct_map_filter)

subsection \<open>Reads and assignments with plain keys\<close>

lemma objRead_plain:
  "k \<notin> set protoKeys \<Longrightarrow>
     objRead obj k = (case objGet obj k of None \<Rightarrow> Undefined | Some v \<Rightarrow> Own v)"
  by (simp add: objRead_def split: option.splits)

lemma objRead_Inherited: "objRead obj k = Inherited n \<longleftrightarrow> n = k \<and> k \<in> set protoKeys \<and> objGet obj k = None"
  by (auto simp: objRead_def split: option.splits)

lemma proto_in_protoKeys: "''__proto__'' \<in> set protoKeys"
  by (simp add: protoKeys_def)

lemma objAssign_plain: "k \<notin> set protoKeys \<Longrightarrow> objAssign obj k v = objSet obj k v"
  using proto_in_protoKeys by (auto simp: objAssign_def)

subsection \<open>Grouping by unit\<close>

lemma groupStep_plain:
  "e_unit e \<notin> set protoKeys \<Longrightarrow>
     groupStep acc e
       = Inr (objSet acc (e_unit e)
                (case objGet acc (e_unit e) of None \<Rightarrow> [e] | Some b \<Rightarrow> b @ [e]))"
  by (simp add: groupStep_def objRead_plain objAssign_plain split: option.splits)

lemma groupStep_throws:
  "e_unit e \<in> set protoKeys \<Longrightarrow> e_unit e \<notin> fst ` set acc \<Longrightarrow> groupStep acc e = Inl TypeError"
  by (simp add: groupStep_def objRead_def objGet_None_iff[THEN iffD2])

lemma group_error:
  "foldl (\<lambda>acc s. case acc of Inl err \<Rightarrow> Inl err | Inr a \<Rightarrow> groupStep a s) (Inl err) es = Inl err"
  by (induction es) simp_all

lemma group_plain:
  assumes "\<forall>e \<in> set es. e_unit e \<notin> set protoKeys"
  shows "\<exists>g. foldl (\<lambda>acc s. case acc of Inl err \<Rightarrow> Inl err | Inr a \<Rightarrow> groupStep a s) (Inr acc) es = Inr g
           \<and> (\<forall>k. objGet g k =
                 (case objGet acc k of
                    None \<Rightarrow> (if filter (\<lambda>e. e_unit e = k) es = [] then None
                              else Some (filter (\<lambda>e. e_unit e = k) es))
                  | Some b \<Rightarrow> Some (b @ filter (\<lambda>e. e_unit e = k) es)))
           \<and> (distinct (map fst acc) \<longrightarrow> distinct (map fst g))
           \<and> fst ` set g = fst ` set acc \<union> e_unit ` set es"
  using assms
proof (induction es arbitrary: acc)
  case Nil
  show ?case by (simp split: option.splits)
next
  case (Cons e es)
  let ?acc = "objSet acc (e_unit e) (case objGet acc (e_unit e) of None \<Rightarrow> [e] | Some b \<Rightarrow> b @ [e])"
  have step: "groupStep acc e = Inr ?acc"
    using Cons.prems by (simp add: groupStep_plain)
  from Cons.prems have "\<forall>e \<in> set es. e_unit e \<notin> set protoKeys" by simp
  from Cons.IH[OF this, of ?acc] obtain g where g:
    "foldl (\<lambda>acc s. case acc of Inl err \<Rightarrow> Inl err | Inr a \<Rightarrow> groupStep a s) (Inr ?acc) es = Inr g"
    "\<forall>k. objGet g k =
                 (case objGet ?acc k of
                    None \<Rightarrow> (if filter (\<lambda>e. e_unit e = k) es = [] then None
                              else Some (filter (\<lambda>e. e_unit e = k) es))
                  | Some b \<Rightarrow> Some (b @ filter (\<lambda>e. e_unit e = k) es))"
    "distinct (map fst ?acc) \<longrightarrow> distinct (map fst g)"
    "fst ` set g = fst ` set ?acc \<union> e_unit ` set es"
    by blast
  have k: "set (map fst ?acc) = insert (e_unit e) (fst ` set acc)"
    unfolding keys_objSet by auto
  have d: "distinct (map fst acc) \<Longrightarrow> distinct (map fst ?acc)"
    unfolding keys_objSet by auto
  have "foldl (\<lambda>acc s. case acc of Inl err \<Rightarrow> Inl err | Inr a \<Rightarrow> groupStep a s) (Inr acc) (e # es) = Inr g"
    using g(1) step by simp
  moreover have "\<forall>k. objGet g k =
                 (case objGet acc k of
                    None \<Rightarrow> (if filter (\<lambda>x. e_unit x = k) (e # es) = [] then None
                              else Some (filter (\<lambda>x. e_unit x = k) (e # es)))
                  | Some b \<Rightarrow> Some (b @ filter (\<lambda>x. e_unit x = k) (e # es)))"
    using g(2) by (simp add: objGet_objSet split: option.splits)
  moreover have "distinct (map fst acc) \<longrightarrow> distinct (map fst g)"
    using g(3) d by blast
  moreover have "fst ` set g = fst ` set acc \<union> e_unit ` set (e # es)"
    using g(4) k by auto
  ultimately show ?case by blast
qed

lemma group_throws:
  assumes "\<exists>e \<in> set es. e_unit e \<in> set protoKeys" and "fst ` set acc \<inter> set protoKeys = {}"
  shows "foldl (\<lambda>acc s. case acc of Inl err \<Rightarrow> Inl err | Inr a \<Rightarrow> groupStep a s) (Inr acc) es
           = Inl TypeError"
  using assms
proof (induction es arbitrary: acc)
  case Nil
  then show ?case by simp
next
  case (Cons e es)
  show ?case
  proof (cases "e_unit e \<in> set protoKeys")
    case True
    with Cons.prems(2) have "e_unit e \<notin> fst ` set acc" by blast
    with True show ?thesis by (simp add: groupStep_throws group_error)
  next
    case False
    let ?acc = "objSet acc (e_unit e) (case objGet acc (e_unit e) of None \<Rightarrow> [e] | Some b \<Rightarrow> b @ [e])"
    have step: "groupStep acc e = Inr ?acc"
      using False by (simp add: groupStep_plain)
    have "set (map fst ?acc) = insert (e_unit e) (fst ` set acc)"
      unfolding keys_objSet by auto
    then have "fst ` set ?acc \<inter> set protoKeys = {}"
      using False Cons.prems(2) by auto
    moreover from False Cons.prems(1) have "\<exists>e \<in> set es. e_unit e \<in> set protoKeys" by auto
    ultimately show ?thesis using Cons.IH[of ?acc] step by simp
  qed
qed

lemma groupedByUnit_plain:
  assumes "\<forall>e \<in> set es. e_unit e \<notin> set protoKeys"
  obtains g where "groupedByUnit es = Inr g"
    and "\<And>k. orEmpty (objGet g k) = filter (\<lambda>e. e_unit e = k) es"
    and "distinct (map fst g)" and "fst ` set g = e_unit ` set es"
proof -
  from group_plain[OF assms, of "[]"] obtain g where g:
    "groupedByUnit es = Inr g"
    "\<forall>k. objGet g k = (if filter (\<lambda>e. e_unit e = k) es = [] then None
                          else Some (filter (\<lambda>e. e_unit e = k) es))"
    "distinct (map fst g)" "fst ` set g = e_unit ` set es"
    unfolding groupedByUnit_def by (auto simp: objGet_def)
  from g(2) have "orEmpty (objGet g k) = filter (\<lambda>e. e_unit e = k) es" for k
    by (simp add: orEmpty_def)
  with g(1,3,4) show thesis using that by blast
qed

lemma groupedByUnit_throws:
  "(\<exists>e \<in> set es. e_unit e \<in> set protoKeys) \<Longrightarrow> groupedByUnit es = Inl TypeError"
  unfolding groupedByUnit_def by (rule group_throws) simp_all

lemma groupedByUnit_Inr_iff:
  "(\<exists>g. groupedByUnit es = Inr g) \<longleftrightarrow> (\<forall>e \<in> set es. e_unit e \<notin> set protoKeys)"
proof
  assume "\<exists>g. groupedByUnit es = Inr g"
  then obtain g where g: "groupedByUnit es = Inr g" by blast
  show "\<forall>e \<in> set es. e_unit e \<notin> set protoKeys"
  proof (rule ccontr)
    assume "\<not> (\<forall>e \<in> set es. e_unit e \<notin> set protoKeys)"
    then have "\<exists>e \<in> set es. e_unit e \<in> set protoKeys" by blast
    from groupedByUnit_throws[OF this] g show False by simp
  qed
next
  assume "\<forall>e \<in> set es. e_unit e \<notin> set protoKeys"
  then show "\<exists>g. groupedByUnit es = Inr g"
    by (rule groupedByUnit_plain) blast
qed

subsection \<open>The lookup map of the week\<close>

lemma find_append_option:
  "find P (xs @ ys) = (case find P xs of None \<Rightarrow> find P ys | Some x \<Rightarrow> Some x)"
  by (induction xs) auto

lemma weeklyStaffDataMap_gen:
  "k \<noteq> ''__proto__'' \<Longrightarrow>
   objGet (wm_own (foldl (\<lambda>m weeklyStaff.
              if ws_staffId weeklyStaff = ''__proto__''
              then m \<lparr> wm_proto := Some weeklyStaff \<rparr>
              else m \<lparr> wm_own := objSet (wm_own m) (ws_staffId weeklyStaff) weeklyStaff \<rparr>) acc ws)) k
     = (case find (\<lambda>r. ws_staffId r = k) (rev ws) of Some r \<Rightarrow> Some r | None \<Rightarrow> objGet (wm_own acc) k)"
proof (induction ws arbitrary: acc)
  case Nil
  then show ?case by simp
next
  case (Cons w ws)
  show ?case
    unfolding foldl_Cons Cons.IH[OF Cons.prems]
    using Cons.prems
    by (auto simp: find_append_option objGet_objSet split: option.splits)
qed

lemma weeklyStaffDataMap_own_keys:
  "''__proto__'' \<notin> fst ` set (wm_own acc) \<Longrightarrow>
   ''__proto__'' \<notin> fst ` set (wm_own (foldl (\<lambda>m weeklyStaff.
              if ws_staffId weeklyStaff = ''__proto__''
              then m \<lparr> wm_proto := Some weeklyStaff \<rparr>
              else m \<lparr> wm_own := objSet (wm_own m) (ws_staffId weeklyStaff) weeklyStaff \<rparr>) acc ws))"
proof (induction ws arbitrary: acc)
  case Nil
  then show ?case by simp
next
  case (Cons w ws)
  show ?case
  proof (cases "ws_staffId w = ''__proto__''")
    case True
    then show ?thesis
      unfolding foldl_Cons using Cons.prems by (simp add: Cons.IH)
  next
    case False
    have "set (map fst (objSet (wm_own acc) (ws_staffId w) w))
            = insert (ws_staffId w) (fst ` set (wm_own acc))"
      unfolding keys_objSet by auto
    then have "''__proto__'' \<notin> set (map fst (objSet (wm_own acc) (ws_staffId w) w))"
      using False Cons.prems by simp
    then have "''__proto__'' \<notin> fst ` set (wm_own (acc \<lparr> wm_own := objSet (wm_own acc) (ws_staffId w) w \<rparr>))"
      by simp
    from Cons.IH[OF this] show ?thesis
      unfolding foldl_Cons using False by simp
  qed
qed

lemma weeklyStaffDataMap_proto_gen:
  "wm_proto (foldl (\<lambda>m weeklyStaff.
              if ws_staffId weeklyStaff = ''__proto__''
              then m \<lparr> wm_proto := Some weeklyStaff \<rparr>
              else m \<lparr> wm_own := objSet (wm_own m) (ws_staffId weeklyStaff) weeklyStaff \<rparr>) acc ws)
     = (case find (\<lambda>r. ws_staffId r = ''__proto__'') (rev ws) of
          Some r \<Rightarrow> Some r | None \<Rightarrow> wm_proto acc)"
proof (induction ws arbitrary: acc)
  case Nil
  then show ?case by simp
next
  case (Cons w ws)
  show ?case
    unfolding foldl_Cons Cons.IH
    by (auto simp: find_append_option split: option.splits)
qed

text \<open>
  What the lookup map gives for an id: the last record of the week with that id; without
  one, a property of the last record with the id \<^verbatim>\<open>__proto__\<close>, when the week has such
  a record, and else the member of \<^verbatim>\<open>Object.prototype\<close> the id names, if any.
\<close>

lemma weeklyLookup_weeklyStaffDataMap:
  "weeklyLookup (weeklyStaffDataMap ws) k =
     (case find (\<lambda>r. ws_staffId r = k) (rev ws) of
        Some r \<Rightarrow> Record r
      | None \<Rightarrow>
          (case find (\<lambda>r. ws_staffId r = ''__proto__'') (rev ws) of
             None \<Rightarrow> if k \<in> set protoKeys then Member k else NoData
           | Some p \<Rightarrow> recordProperty p k))"
proof (cases "k = ''__proto__''")
  case True
  have "''__proto__'' \<notin> fst ` set (wm_own (weeklyStaffDataMap ws))"
    unfolding weeklyStaffDataMap_def by (rule weeklyStaffDataMap_own_keys) simp
  then have "objGet (wm_own (weeklyStaffDataMap ws)) ''__proto__'' = None"
    by (simp add: objGet_None_iff)
  moreover have "wm_proto (weeklyStaffDataMap ws) = find (\<lambda>r. ws_staffId r = ''__proto__'') (rev ws)"
    unfolding weeklyStaffDataMap_def weeklyStaffDataMap_proto_gen by (simp split: option.splits)
  ultimately show ?thesis
    using True proto_in_protoKeys by (simp add: weeklyLookup_def split: option.splits)
next
  case False
  have "objGet (wm_own (weeklyStaffDataMap ws)) k = find (\<lambda>r. ws_staffId r = k) (rev ws)"
    unfolding weeklyStaffDataMap_def weeklyStaffDataMap_gen[OF False]
    by (simp add: objGet_def split: option.splits)
  moreover have "wm_proto (weeklyStaffDataMap ws) = find (\<lambda>r. ws_staffId r = ''__proto__'') (rev ws)"
    unfolding weeklyStaffDataMap_def weeklyStaffDataMap_proto_gen by (simp split: option.splits)
  ultimately show ?thesis
    using False by (simp add: weeklyLookup_def split: option.splits)
qed

subsection \<open>The shape of the view\<close>

lemma build_result:
  "distinct ks \<Longrightarrow> set ks \<inter> fst ` set acc = {} \<Longrightarrow> ''__proto__'' \<notin> set ks \<Longrightarrow>
     foldl (\<lambda>res k. objAssign res k (f k)) acc ks = acc @ map (\<lambda>k. (k, f k)) ks"
proof (induction ks arbitrary: acc)
  case Nil
  then show ?case by simp
next
  case (Cons k ks)
  have fresh: "k \<notin> fst ` set acc" and k: "k \<noteq> ''__proto__''" using Cons.prems by auto
  have "set ks \<inter> fst ` set (acc @ [(k, f k)]) = {}"
    using Cons.prems by auto
  then show ?case using Cons.IH[of "acc @ [(k, f k)]"] Cons.prems fresh k
    by (simp add: objSet_fresh objAssign_def)
qed

lemma distinct_sortedUnitKeys:
  "distinct (map fst grouped) \<Longrightarrow> distinct (sortedUnitKeys lc gs grouped)"
  by (simp add: sortedUnitKeys_def distinct_jsSort distinct_Object_keys)

lemma set_sortedUnitKeys: "set (sortedUnitKeys lc gs grouped) = fst ` set grouped"
  by (simp add: sortedUnitKeys_def set_jsSort set_Object_keys)

lemma finalSortedResult_structure:
  assumes "distinct (map fst grouped)" and "''__proto__'' \<notin> fst ` set grouped"
  shows "finalSortedResult lc gs grouped =
           map (\<lambda>k. (k, jsSort (staffCompare lc gs) (orEmpty (objGet grouped k))))
             (sortedUnitKeys lc gs grouped)"
  unfolding finalSortedResult_def
  using build_result[OF distinct_sortedUnitKeys[OF assms(1)], where acc = "[]"] assms(2)
  by (simp add: set_sortedUnitKeys)

text \<open>
  \<^verbatim>\<open>getStaffByUnit\<close> on loaded settings throws exactly when the effective unit of an
  active member names a member of \<^verbatim>\<open>Object.prototype\<close>. Otherwise it returns one
  bucket for each effective unit, which holds the entries of that unit, sorted; the
  buckets are in the order of the sorted keys of the grouping.
\<close>

lemma getStaffByUnit_throws:
  assumes "\<exists>e \<in> set (combinedStaffList gs sched). e_unit e \<in> set protoKeys"
  shows "getStaffByUnit lc False False (Some gs) sched = Inl TypeError"
proof -
  from assms have "combinedStaffList gs sched \<noteq> []" by auto
  then have "filter isActive (orEmpty (staffList gs)) \<noteq> []"
    by (auto simp: combinedStaffList_def)
  then show ?thesis
    using groupedByUnit_throws[OF assms] by (simp add: getStaffByUnit_def)
qed

lemma getStaffByUnit_structure:
  assumes "\<forall>e \<in> set (combinedStaffList gs sched). e_unit e \<notin> set protoKeys"
  obtains g where "groupedByUnit (combinedStaffList gs sched) = Inr g"
    and "distinct (map fst g)" and "fst ` set g = e_unit ` set (combinedStaffList gs sched)"
    and "getStaffByUnit lc False False (Some gs) sched =
           Inr (map (\<lambda>k. (k, jsSort (staffCompare lc gs)
                                (filter (\<lambda>e. e_unit e = k) (combinedStaffList gs sched))))
                  (sortedUnitKeys lc gs g))"
proof -
  from groupedByUnit_plain[OF assms] obtain g where g:
    "groupedByUnit (combinedStaffList gs sched) = Inr g"
    "\<And>k. orEmpty (objGet g k) = filter (\<lambda>e. e_unit e = k) (combinedStaffList gs sched)"
    "distinct (map fst g)" "fst ` set g = e_unit ` set (combinedStaffList gs sched)"
    by blast
  have p: "''__proto__'' \<notin> fst ` set g"
    using g(4) assms proto_in_protoKeys by auto
  have "getStaffByUnit lc False False (Some gs) sched =
           Inr (map (\<lambda>k. (k, jsSort (staffCompare lc gs)
                                (filter (\<lambda>e. e_unit e = k) (combinedStaffList gs sched))))
                  (sortedUnitKeys lc gs g))"
  proof (cases "filter isActive (orEmpty (staffList gs)) = []")
    case True
    then have "combinedStaffList gs sched = []"
      by (simp add: combinedStaffList_def)
    with g(4) have "g = []" by simp
    then show ?thesis using True
      by (simp add: getStaffByUnit_def sortedUnitKeys_def Object_keys_def)
  next
    case False
    then show ?thesis
      by (simp add: getStaffByUnit_def g(1) finalSortedResult_structure[OF g(3) p] g(2))
  qed
  with g(1,3,4) show thesis by (rule that)
qed

lemma getStaffByUnit_Inr_iff:
  "(\<exists>view. getStaffByUnit lc False False (Some gs) sched = Inr view)
     \<longleftrightarrow> (\<forall>e \<in> set (combinedStaffList gs sched). e_unit e \<notin> set protoKeys)"
proof
  assume "\<exists>view. getStaffByUnit lc False False (Some gs) sched = Inr view"
  then obtain view where v: "getStaffByUnit lc False False (Some gs) sched = Inr view" by blast
  show "\<forall>e \<in> set (combinedStaffList gs sched). e_unit e \<notin> set protoKeys"
  proof (rule ccontr)
    assume "\<not> (\<forall>e \<in> set (combinedStaffList gs sched). e_unit e \<notin> set protoKeys)"
    then have "\<exists>e \<in> set (combinedStaffList gs sched). e_unit e \<in> set protoKeys" by blast
    from getStaffByUnit_throws[OF this, of lc] v show False by simp
  qed
next
  assume "\<forall>e \<in> set (combinedStaffList gs sched). e_unit e \<notin> set protoKeys"
  then show "\<exists>view. getStaffByUnit lc False False (Some gs) sched = Inr view"
    by (rule getStaffByUnit_structure) blast
qed

lemma map_of_tabulate:
  "map_of (map (\<lambda>k. (k, f k)) ks) k = (if k \<in> set ks then Some (f k) else None)"
  by (induction ks) auto

lemma getStaffByUnit_view:
  assumes "getStaffByUnit lc False False (Some gs) sched = Inr view"
  obtains g where "distinct (map fst g)"
    and "fst ` set g = e_unit ` set (combinedStaffList gs sched)"
    and "view = map (\<lambda>k. (k, jsSort (staffCompare lc gs)
                                (filter (\<lambda>e. e_unit e = k) (combinedStaffList gs sched))))
                  (sortedUnitKeys lc gs g)"
proof -
  from assms have "\<exists>v. getStaffByUnit lc False False (Some gs) sched = Inr v" by simp
  then have pl: "\<forall>e \<in> set (combinedStaffList gs sched). e_unit e \<notin> set protoKeys"
    by (simp only: getStaffByUnit_Inr_iff)
  show thesis
  proof (rule getStaffByUnit_structure[OF pl, of lc])
    fix g
    assume "groupedByUnit (combinedStaffList gs sched) = Inr g"
    assume g: "distinct (map fst g)" "fst ` set g = e_unit ` set (combinedStaffList gs sched)"
      "getStaffByUnit lc False False (Some gs) sched =
           Inr (map (\<lambda>k. (k, jsSort (staffCompare lc gs)
                                (filter (\<lambda>e. e_unit e = k) (combinedStaffList gs sched))))
                  (sortedUnitKeys lc gs g))"
    from g(3) assms have "view = map (\<lambda>k. (k, jsSort (staffCompare lc gs)
                                (filter (\<lambda>e. e_unit e = k) (combinedStaffList gs sched))))
                  (sortedUnitKeys lc gs g)"
      by simp
    with g(1,2) show thesis by (rule that)
  qed
qed

lemma getStaffByUnit_keys:
  assumes "getStaffByUnit lc False False (Some gs) sched = Inr view"
  shows "set (map fst view) = e_unit ` set (combinedStaffList gs sched) \<and> distinct (map fst view)"
proof (rule getStaffByUnit_view[OF assms])
  fix g
  assume g: "distinct (map fst g)" "fst ` set g = e_unit ` set (combinedStaffList gs sched)"
    "view = map (\<lambda>k. (k, jsSort (staffCompare lc gs)
                                (filter (\<lambda>e. e_unit e = k) (combinedStaffList gs sched))))
                  (sortedUnitKeys lc gs g)"
  have "set (map fst view) = e_unit ` set (combinedStaffList gs sched)"
    unfolding g(3) by (simp add: comp_def set_sortedUnitKeys g(2))
  moreover have "distinct (map fst view)"
    unfolding g(3) by (simp add: comp_def distinct_sortedUnitKeys[OF g(1)])
  ultimately show ?thesis by simp
qed

lemma getStaffByUnit_bucket:
  assumes "getStaffByUnit lc False False (Some gs) sched = Inr view"
  shows "objGet view k =
     (if k \<in> e_unit ` set (combinedStaffList gs sched)
      then Some (jsSort (staffCompare lc gs)
                   (filter (\<lambda>e. e_unit e = k) (combinedStaffList gs sched)))
      else None)"
proof (rule getStaffByUnit_view[OF assms])
  fix g
  assume g: "distinct (map fst g)" "fst ` set g = e_unit ` set (combinedStaffList gs sched)"
    "view = map (\<lambda>k. (k, jsSort (staffCompare lc gs)
                                (filter (\<lambda>e. e_unit e = k) (combinedStaffList gs sched))))
                  (sortedUnitKeys lc gs g)"
  show ?thesis
    unfolding objGet_def g(3) map_of_tabulate by (simp add: set_sortedUnitKeys g(2))
qed

lemma getStaffByUnit_member:
  assumes "getStaffByUnit lc False False (Some gs) sched = Inr view"
  shows "(\<exists>b. objGet view k = Some b \<and> e \<in> set b)
     \<longleftrightarrow> e \<in> set (combinedStaffList gs sched) \<and> e_unit e = k"
  by (auto simp: getStaffByUnit_bucket[OF assms] set_jsSort)

lemma viewEntries_getStaffByUnit:
  assumes "getStaffByUnit lc False False (Some gs) sched = Inr view"
  shows "set (viewEntries view) = set (combinedStaffList gs sched)"
proof (rule getStaffByUnit_view[OF assms])
  fix g
  let ?es = "combinedStaffList gs sched"
  assume g: "distinct (map fst g)" "fst ` set g = e_unit ` set (combinedStaffList gs sched)"
    "view = map (\<lambda>k. (k, jsSort (staffCompare lc gs)
                                (filter (\<lambda>e. e_unit e = k) (combinedStaffList gs sched))))
                  (sortedUnitKeys lc gs g)"
  have "set (viewEntries view) = (\<Union>k \<in> e_unit ` set ?es. {e \<in> set ?es. e_unit e = k})"
    unfolding g(3) by (simp add: viewEntries_def comp_def set_jsSort set_sortedUnitKeys g(2))
  also have "\<dots> = set ?es" by auto
  finally show ?thesis .
qed

lemma getStaffByUnit_not_loaded:
  "sl \<or> schl \<or> gso = None \<Longrightarrow> getStaffByUnit lc sl schl gso sched = Inr []"
  by (auto simp: getStaffByUnit_def)

lemma view_entries:
  assumes "getStaffByUnit lc sl schl gso sched = Inr view"
  shows "set (viewEntries view) =
     (if sl \<or> schl then {}
      else case gso of None \<Rightarrow> {} | Some gs \<Rightarrow> set (combinedStaffList gs sched))"
proof (cases "sl \<or> schl \<or> gso = None")
  case True
  then show ?thesis
    using getStaffByUnit_not_loaded[OF True, of lc sched] assms
    by (auto simp: viewEntries_def split: option.splits)
next
  case False
  then obtain gs where "gso = Some gs" "\<not> sl" "\<not> schl" by auto
  then show ?thesis using assms by (simp add: viewEntries_getStaffByUnit)
qed

lemma staffId_combineStaff: "e_staffId (combineStaff gs wmap g) = sm_id g"
  by (simp add: combineStaff_def Let_def)

section \<open>The active filter\<close>

text \<open>
  Claim C8. Whatever the roster, the categories and the week: every entry of a view that
  \<^verbatim>\<open>getStaffByUnit\<close> returns comes from an active roster member; with unique ids, the
  id of a member that is not active appears nowhere in the view; and without an active
  member the call returns the empty object, it does not throw.
\<close>

theorem active_filter:
  "(\<forall>view. getStaffByUnit lc sl schl gso sched = Inr view \<longrightarrow>
       (\<forall>e \<in> set (viewEntries view).
           \<exists>g \<in> set (roster gso). isActive g \<and> e_staffId e = sm_id g)
     \<and> (distinct (map sm_id (roster gso)) \<longrightarrow>
          (\<forall>g \<in> set (roster gso). \<not> isActive g \<longrightarrow>
             sm_id g \<notin> e_staffId ` set (viewEntries view))))
   \<and> (filter isActive (roster gso) = [] \<longrightarrow> getStaffByUnit lc sl schl gso sched = Inr [])"
proof (intro conjI allI impI)
  fix view
  assume v: "getStaffByUnit lc sl schl gso sched = Inr view"
  show a: "\<forall>e \<in> set (viewEntries view).
       \<exists>g \<in> set (roster gso). isActive g \<and> e_staffId e = sm_id g"
    by (auto simp: view_entries[OF v] combinedStaffList_def roster_def staffId_combineStaff
        split: if_splits option.splits)
  show "\<forall>g \<in> set (roster gso). \<not> isActive g \<longrightarrow>
           sm_id g \<notin> e_staffId ` set (viewEntries view)"
    if d: "distinct (map sm_id (roster gso))"
  proof (intro impI ballI notI)
    fix g
    assume g: "g \<in> set (roster gso)" and n: "\<not> isActive g"
      and m: "sm_id g \<in> e_staffId ` set (viewEntries view)"
    from m a obtain g' where g': "g' \<in> set (roster gso)" "isActive g'" "sm_id g' = sm_id g"
      by force
    from d g g' have "g' = g" by (meson distinct_map inj_onD)
    with n g' show False by simp
  qed
next
  assume "filter isActive (roster gso) = []"
  then show "getStaffByUnit lc sl schl gso sched = Inr []"
    by (auto simp: getStaffByUnit_def roster_def split: option.splits)
qed

text \<open>The concrete inputs, unfolded, and the definitions a concrete view is computed
  with.\<close>

lemmas exA = settingsA_def rosterA_def weekA_def mkSettings_def member_def settingsIdle_def

lemmas ev = combinedStaffList_def orEmpty_def isActive_def combineStaff_def weeklyStaffDataMap_def
     weeklyLookup_def recordProperty_def dataText_def dataShifts_def memberName_def
     objGet_def objRead_def objAssign_def protoKeys_def nullish_def isOrphaned_def display_def Let_def
     groupedByUnit_def groupStep_def objSet_def
     getStaffByUnit_def finalSortedResult_def sortedUnitKeys_def Object_keys_def unitCompare_def unitIndex_def
     createOrderMap_def orderIndex_def staffCompare_def categoryIndex_def jsMinus_def indexMinus_def
     orEmptyString_def isArrayIndex_def isDigit_def digitsVal_def enumerate_eq_zip viewEntries_def

lemma returnsA:
  "getStaffByUnit codeUnitCompare False False (Some settingsA) (Some weekA)
     = Inr (projr (getStaffByUnit codeUnitCompare False False (Some settingsA) (Some weekA)))"
  by (simp add: ev exA)

lemma idsA:
  "map e_staffId
     (viewEntries (projr (getStaffByUnit codeUnitCompare False False (Some settingsA) (Some weekA))))
     = [''s3'', ''s1'']"
  by (simp add: ev exA)

theorem active_filter_witness:
  "getStaffByUnit codeUnitCompare False False (Some settingsA) (Some weekA)
     = Inr (projr (getStaffByUnit codeUnitCompare False False (Some settingsA) (Some weekA)))
   \<and> e_staffId ` set (viewEntries
        (projr (getStaffByUnit codeUnitCompare False False (Some settingsA) (Some weekA))))
     = {''s1'', ''s3''}
   \<and> distinct (map sm_id (roster (Some settingsA)))
   \<and> member ''s2'' ''I'' ''G'' ''J'' False 1 \<in> set (roster (Some settingsA))
   \<and> \<not> isActive (member ''s2'' ''I'' ''G'' ''J'' False 1)
   \<and> ''s2'' \<notin> e_staffId ` set (viewEntries
        (projr (getStaffByUnit codeUnitCompare False False (Some settingsA) (Some weekA))))
   \<and> filter isActive (roster (Some settingsIdle)) = []
   \<and> getStaffByUnit codeUnitCompare False False (Some settingsIdle) None = Inr []"
proof -
  let ?V = "projr (getStaffByUnit codeUnitCompare False False (Some settingsA) (Some weekA))"
  have d: "distinct (map sm_id (roster (Some settingsA)))"
    by (simp add: roster_def exA orEmpty_def)
  have m: "member ''s2'' ''I'' ''G'' ''J'' False 1 \<in> set (roster (Some settingsA))"
    by (simp add: roster_def exA orEmpty_def)
  have n: "\<not> isActive (member ''s2'' ''I'' ''G'' ''J'' False 1)"
    by (simp add: isActive_def member_def)
  have i: "filter isActive (roster (Some settingsIdle)) = []"
    by (simp add: roster_def exA orEmpty_def isActive_def)
  have s: "sm_id (member ''s2'' ''I'' ''G'' ''J'' False 1) = ''s2''"
    by (simp add: member_def)
  have ids: "e_staffId ` set (viewEntries ?V) = {''s1'', ''s3''}"
    using idsA by (simp flip: set_map) auto
  from active_filter[of codeUnitCompare False False "Some settingsA" "Some weekA",
      THEN conjunct1, rule_format, OF returnsA, THEN conjunct2, rule_format, OF d m n]
  have "''s2'' \<notin> e_staffId ` set (viewEntries ?V)"
    unfolding s .
  moreover from active_filter[of codeUnitCompare False False "Some settingsIdle" None,
      THEN conjunct2, rule_format, OF i]
  have "getStaffByUnit codeUnitCompare False False (Some settingsIdle) None = Inr []" .
  ultimately show ?thesis using returnsA d m n i ids by blast
qed

section \<open>Effective values\<close>

text \<open>With plain inputs the lookup map gives the member's override record, or nothing,
  and no effective unit names a member of \<^verbatim>\<open>Object.prototype\<close>.\<close>

lemma find_Some_mem: "find P xs = Some x \<Longrightarrow> x \<in> set xs \<and> P x"
  by (induction xs) (auto split: if_splits)

lemma plainInputs_no_proto:
  assumes "plainInputs (Some gs) sched"
  shows "find (\<lambda>r. ws_staffId r = ''__proto__'') (rev (case sched of None \<Rightarrow> [] | Some w \<Rightarrow> staff w)) = None"
proof -
  define ws where "ws = (case sched of None \<Rightarrow> [] | Some w \<Rightarrow> staff w)"
  from assms have "\<forall>r \<in> set ws. ws_staffId r \<notin> set protoKeys"
    by (simp add: plainInputs_def plainKey_def list_all_iff ws_def)
  then have "\<forall>r \<in> set ws. ws_staffId r \<noteq> ''__proto__''"
    using proto_in_protoKeys by metis
  then have "find (\<lambda>r. ws_staffId r = ''__proto__'') (rev ws) = None"
    by (simp add: find_None_iff)
  then show ?thesis by (simp add: ws_def)
qed

lemma weeklyData_overrideRecord:
  assumes "plainInputs (Some gs) sched" and "g \<in> set (orEmpty (staffList gs))" and "isActive g"
  shows "weeklyLookup (weeklyStaffDataMap (case sched of None \<Rightarrow> [] | Some w \<Rightarrow> staff w)) (sm_id g)
     = (case overrideRecord sched (sm_id g) of None \<Rightarrow> NoData | Some r \<Rightarrow> Record r)"
proof -
  from assms have "sm_id g \<notin> set protoKeys"
    by (auto simp: plainInputs_def plainKey_def list_all_iff)
  then show ?thesis
    unfolding weeklyLookup_weeklyStaffDataMap plainInputs_no_proto[OF assms(1)]
    by (simp add: overrideRecord_def split: option.splits)
qed

lemma data_overrideValue:
  assumes "plainInputs (Some gs) sched" and "g \<in> set (orEmpty (staffList gs))" and "isActive g"
  shows "dataText (weeklyLookup (weeklyStaffDataMap (case sched of None \<Rightarrow> [] | Some w \<Rightarrow> staff w))
                     (sm_id g)) field key
           = overrideValue sched (sm_id g) field"
    and "dataShifts (weeklyLookup (weeklyStaffDataMap (case sched of None \<Rightarrow> [] | Some w \<Rightarrow> staff w))
                     (sm_id g))
           = map_option ShiftMap (overrideValue sched (sm_id g) ws_shifts)"
  unfolding weeklyData_overrideRecord[OF assms]
  by (simp_all add: dataText_def dataShifts_def overrideValue_def split: option.splits)

lemma combinedStaffList_iff:
  "e \<in> set (combinedStaffList gs sched) \<longleftrightarrow>
     (\<exists>g \<in> set (orEmpty (staffList gs)). isActive g \<and>
        e = combineStaff gs (weeklyStaffDataMap (case sched of None \<Rightarrow> [] | Some w \<Rightarrow> staff w)) g)"
  by (auto simp: combinedStaffList_def)

lemma inView_getStaffByUnit:
  assumes "getStaffByUnit lc False False (Some gs) sched = Inr view"
  shows "inView view e \<longleftrightarrow> e \<in> set (combinedStaffList gs sched)"
  by (auto simp: inView_def getStaffByUnit_bucket[OF assms] set_jsSort)

lemma combineStaff_effective:
  assumes "plainInputs (Some gs) sched" and "g \<in> set (orEmpty (staffList gs))" and "isActive g"
  shows "carriesEffectiveValues sched g
     (combineStaff gs (weeklyStaffDataMap (case sched of None \<Rightarrow> [] | Some w \<Rightarrow> staff w)) g)"
  by (simp add: carriesEffectiveValues_def combineStaff_def Let_def data_overrideValue[OF assms]
      effectiveValue_def nullish_def orEmptyString_def split: option.splits)

lemma overrideValue_unit_plain:
  assumes "plainInputs (Some gs) sched" and "overrideValue sched sid ws_unit = Some v"
  shows "v \<notin> set protoKeys"
proof -
  from assms(2) obtain r where r: "overrideRecord sched sid = Some r" "ws_unit r = Some v"
    by (auto simp: overrideValue_def split: option.splits)
  from r(1) have "r \<in> set (case sched of None \<Rightarrow> [] | Some w \<Rightarrow> staff w)"
    by (auto simp: overrideRecord_def split: option.splits dest: find_Some_mem)
  with assms(1) r(2) show ?thesis
    by (auto simp: plainInputs_def plainKey_def list_all_iff orEmptyString_def)
qed

lemma plainInputs_units:
  assumes "plainInputs (Some gs) sched"
  shows "\<forall>e \<in> set (combinedStaffList gs sched). e_unit e \<notin> set protoKeys"
proof
  fix e assume "e \<in> set (combinedStaffList gs sched)"
  then obtain g where g: "g \<in> set (orEmpty (staffList gs))" "isActive g"
    and e: "e = combineStaff gs (weeklyStaffDataMap (case sched of None \<Rightarrow> [] | Some w \<Rightarrow> staff w)) g"
    unfolding combinedStaffList_iff by blast
  from combineStaff_effective[OF assms g] e
  have u: "e_unit e = effectiveValue (overrideValue sched (sm_id g) ws_unit) (sm_defaultUnit g)"
    by (simp add: carriesEffectiveValues_def)
  from assms g have d: "orEmptyString (sm_defaultUnit g) \<notin> set protoKeys"
    by (auto simp: plainInputs_def plainKey_def list_all_iff)
  show "e_unit e \<notin> set protoKeys"
  proof (cases "overrideValue sched (sm_id g) ws_unit")
    case None
    with u d show ?thesis by (simp add: effectiveValue_def)
  next
    case (Some v)
    with u overrideValue_unit_plain[OF assms Some] show ?thesis by (simp add: effectiveValue_def)
  qed
qed

lemma plainInputs_returns:
  assumes "plainInputs (Some gs) sched"
  shows "\<exists>view. getStaffByUnit lc False False (Some gs) sched = Inr view"
  unfolding getStaffByUnit_Inr_iff by (rule plainInputs_units[OF assms])

text \<open>
  The statement of claim C4 for plain inputs. The call returns a view; for every active
  roster member the view holds, in the bucket of its effective unit, an entry with the
  member's effective values, and every entry of the view is such an entry.
\<close>

lemma effective_values_plain:
  assumes "plainInputs (Some gs) sched"
  shows "\<exists>view. getStaffByUnit lc False False (Some gs) sched = Inr view
           \<and> (\<forall>g \<in> set (orEmpty (staffList gs)). isActive g \<longrightarrow>
                (\<exists>e. inView view e \<and> carriesEffectiveValues sched g e))
           \<and> (\<forall>e \<in> set (viewEntries view).
                \<exists>g \<in> set (orEmpty (staffList gs)). isActive g \<and> carriesEffectiveValues sched g e)"
proof -
  from plainInputs_returns[OF assms] obtain view
    where v: "getStaffByUnit lc False False (Some gs) sched = Inr view" by blast
  have "\<exists>e. inView view e \<and> carriesEffectiveValues sched g e"
    if "g \<in> set (orEmpty (staffList gs))" "isActive g" for g
  proof -
    from that have "inView view
               (combineStaff gs (weeklyStaffDataMap (case sched of None \<Rightarrow> [] | Some w \<Rightarrow> staff w)) g)"
      unfolding inView_getStaffByUnit[OF v] combinedStaffList_iff by blast
    then show ?thesis using combineStaff_effective[OF assms that] by blast
  qed
  moreover have "\<exists>g \<in> set (orEmpty (staffList gs)). isActive g \<and> carriesEffectiveValues sched g e"
    if "e \<in> set (viewEntries view)" for e
  proof -
    from that have "e \<in> set (combinedStaffList gs sched)"
      by (simp add: viewEntries_getStaffByUnit[OF v])
    then show ?thesis
      unfolding combinedStaffList_iff using combineStaff_effective[OF assms] by blast
  qed
  ultimately show ?thesis using v by blast
qed

lemma overrideA:
  "overrideRecord (Some weekA) ''s1''
     = Some \<lparr> ws_staffId = ''s1'', ws_name = None, ws_unit = Some [],
              ws_group = Some ''Gone'', ws_jobTitle = None,
              ws_shifts = Some [(''2024-06-10'', ''DE'')] \<rparr>"
  by (simp add: overrideRecord_def weekA_def)

lemma plainA: "plainInputs (Some settingsA) (Some weekA)"
  by (simp add: plainInputs_def plainKey_def protoKeys_def exA orEmpty_def orEmptyString_def isActive_def)

text \<open>
  Claim C4 at a unit named \<^verbatim>\<open>constructor\<close>, and at a staff id \<^verbatim>\<open>constructor\<close>. The
  grouping reads \<^verbatim>\<open>acc["constructor"]\<close>, which is the inherited function and has no
  \<^verbatim>\<open>push\<close>: the call throws and there is no view. The lookup
  \<^verbatim>\<open>weeklyStaffDataMap["constructor"]\<close> of a member without a record in the week is the
  inherited function, whose \<^verbatim>\<open>name\<close> is \<^verbatim>\<open>"Object"\<close>: the entry has that name, not
  the roster's.
\<close>

theorem effective_values_prototype:
  "map (\<lambda>g. (sm_id g, sm_defaultUnit g, isActive g)) (roster (Some settingsProtoUnit))
     = [(''s1'', Some ''constructor'', True)]
   \<and> getStaffByUnit codeUnitCompare False False (Some settingsProtoUnit) None = Inl TypeError
   \<and> map (\<lambda>g. (sm_id g, sm_name g, isActive g)) (roster (Some settingsProtoId))
     = [(''constructor'', Some ''Anna'', True)]
   \<and> overrideRecord None ''constructor'' = None
   \<and> map_sum id (map (\<lambda>e. (e_staffId e, e_name e, e_unit e)) \<circ> viewEntries)
       (getStaffByUnit codeUnitCompare False False (Some settingsProtoId) None)
     = Inr [(''constructor'', Some ''Object'', ''I'')]"
proof -
  have "map (\<lambda>g. (sm_id g, sm_defaultUnit g, isActive g)) (roster (Some settingsProtoUnit))
     = [(''s1'', Some ''constructor'', True)]"
    by (simp add: roster_def settingsProtoUnit_def mkSettings_def member_def orEmpty_def isActive_def)
  moreover have "getStaffByUnit codeUnitCompare False False (Some settingsProtoUnit) None = Inl TypeError"
    by (simp add: ev settingsProtoUnit_def mkSettings_def member_def)
  moreover have "map (\<lambda>g. (sm_id g, sm_name g, isActive g)) (roster (Some settingsProtoId))
     = [(''constructor'', Some ''Anna'', True)]"
    by (simp add: roster_def settingsProtoId_def mkSettings_def member_def orEmpty_def isActive_def)
  moreover have "overrideRecord None ''constructor'' = None"
    by (simp add: overrideRecord_def)
  moreover have "map_sum id (map (\<lambda>e. (e_staffId e, e_name e, e_unit e)) \<circ> viewEntries)
       (getStaffByUnit codeUnitCompare False False (Some settingsProtoId) None)
     = Inr [(''constructor'', Some ''Object'', ''I'')]"
    by (simp add: ev settingsProtoId_def mkSettings_def member_def)
  ultimately show ?thesis by blast
qed

section \<open>Orphan detection\<close>

lemma combineStaff_orphans:
  assumes "plainInputs (Some gs) sched" and "g \<in> set (orEmpty (staffList gs))" and "isActive g"
    and "e = combineStaff gs (weeklyStaffDataMap (case sched of None \<Rightarrow> [] | Some w \<Rightarrow> staff w)) g"
  shows "e_isOrphanedUnit e = isOrphaned (orEmpty (units gs)) (overrideValue sched (sm_id g) ws_unit)
   \<and> e_isOrphanedGroup e = isOrphaned (orEmpty (groups gs)) (overrideValue sched (sm_id g) ws_group)
   \<and> e_isOrphanedJobTitle e
       = isOrphaned (orEmpty (jobTitles gs)) (overrideValue sched (sm_id g) ws_jobTitle)
   \<and> e_displayUnit e = display (e_isOrphanedUnit e) (e_unit e)
   \<and> e_displayGroup e = display (e_isOrphanedGroup e) (e_group e)
   \<and> e_displayJobTitle e = display (e_isOrphanedJobTitle e) (e_jobTitle e)"
  unfolding assms(4)
  by (simp add: combineStaff_def Let_def data_overrideValue[OF assms(1,2,3)])

lemma isOrphaned_iff:
  "isOrphaned cats ov \<longleftrightarrow> (\<exists>v. ov = Some v \<and> v \<noteq> [] \<and> v \<notin> set cats)"
  by (cases ov) (auto simp: isOrphaned_def)

text \<open>
  Claim C1, as the code has it by design, for plain inputs (no staff id and no unit of
  the active roster members or of the week's records names a member of
  \<^verbatim>\<open>Object.prototype\<close>). The call returns a view. Every active roster member has an
  entry in the view, and every entry of the view belongs to an active roster member. For
  each of unit, group and job title, the orphan flag of an entry is true exactly when the
  week has an override record for the member that supplies a value for the field which
  is not the empty string and is not in the category list. A roster default is never
  flagged, whatever it names. The display string is the effective value followed by the
  literal \<open>deletedSuffix\<close> when the field is orphaned, and the effective value itself
  otherwise.
\<close>

theorem orphan_flags:
  assumes "plainInputs (Some gs) sched"
  shows "\<exists>view. getStaffByUnit lc False False (Some gs) sched = Inr view
   \<and> (\<forall>g \<in> set (orEmpty (staffList gs)). isActive g \<longrightarrow>
        (\<exists>e \<in> set (viewEntries view). e_staffId e = sm_id g))
   \<and> (\<forall>e \<in> set (viewEntries view).
        (\<exists>g \<in> set (orEmpty (staffList gs)). isActive g \<and> sm_id g = e_staffId e)
      \<and> (e_isOrphanedUnit e \<longleftrightarrow>
           (\<exists>v. overrideValue sched (e_staffId e) ws_unit = Some v \<and> v \<noteq> []
                \<and> v \<notin> set (orEmpty (units gs))))
      \<and> (e_isOrphanedGroup e \<longleftrightarrow>
           (\<exists>v. overrideValue sched (e_staffId e) ws_group = Some v \<and> v \<noteq> []
                \<and> v \<notin> set (orEmpty (groups gs))))
      \<and> (e_isOrphanedJobTitle e \<longleftrightarrow>
           (\<exists>v. overrideValue sched (e_staffId e) ws_jobTitle = Some v \<and> v \<noteq> []
                \<and> v \<notin> set (orEmpty (jobTitles gs))))
      \<and> e_displayUnit e = (if e_isOrphanedUnit e then e_unit e @ deletedSuffix else e_unit e)
      \<and> e_displayGroup e = (if e_isOrphanedGroup e then e_group e @ deletedSuffix else e_group e)
      \<and> e_displayJobTitle e
          = (if e_isOrphanedJobTitle e then e_jobTitle e @ deletedSuffix else e_jobTitle e))"
proof -
  from plainInputs_returns[OF assms] obtain view
    where v: "getStaffByUnit lc False False (Some gs) sched = Inr view" by blast
  have 1: "\<exists>e \<in> set (viewEntries view). e_staffId e = sm_id g"
    if "g \<in> set (orEmpty (staffList gs))" "isActive g" for g
  proof -
    from that have "combineStaff gs (weeklyStaffDataMap (case sched of None \<Rightarrow> [] | Some w \<Rightarrow> staff w)) g
        \<in> set (viewEntries view)"
      unfolding viewEntries_getStaffByUnit[OF v] combinedStaffList_iff by blast
    then show ?thesis using staffId_combineStaff by blast
  qed
  have 2: "(\<exists>g \<in> set (orEmpty (staffList gs)). isActive g \<and> sm_id g = e_staffId e)
      \<and> (e_isOrphanedUnit e \<longleftrightarrow>
           (\<exists>v. overrideValue sched (e_staffId e) ws_unit = Some v \<and> v \<noteq> []
                \<and> v \<notin> set (orEmpty (units gs))))
      \<and> (e_isOrphanedGroup e \<longleftrightarrow>
           (\<exists>v. overrideValue sched (e_staffId e) ws_group = Some v \<and> v \<noteq> []
                \<and> v \<notin> set (orEmpty (groups gs))))
      \<and> (e_isOrphanedJobTitle e \<longleftrightarrow>
           (\<exists>v. overrideValue sched (e_staffId e) ws_jobTitle = Some v \<and> v \<noteq> []
                \<and> v \<notin> set (orEmpty (jobTitles gs))))
      \<and> e_displayUnit e = (if e_isOrphanedUnit e then e_unit e @ deletedSuffix else e_unit e)
      \<and> e_displayGroup e = (if e_isOrphanedGroup e then e_group e @ deletedSuffix else e_group e)
      \<and> e_displayJobTitle e
          = (if e_isOrphanedJobTitle e then e_jobTitle e @ deletedSuffix else e_jobTitle e)"
    if "e \<in> set (viewEntries view)" for e
  proof -
    from that have "e \<in> set (combinedStaffList gs sched)"
      by (simp add: viewEntries_getStaffByUnit[OF v])
    then obtain g where g: "g \<in> set (orEmpty (staffList gs))" "isActive g"
      and e: "e = combineStaff gs (weeklyStaffDataMap (case sched of None \<Rightarrow> [] | Some w \<Rightarrow> staff w)) g"
      unfolding combinedStaffList_iff by blast
    have i: "e_staffId e = sm_id g" unfolding e by (rule staffId_combineStaff)
    note o = combineStaff_orphans[OF assms g e, unfolded isOrphaned_iff display_def, folded i]
    have "\<exists>g \<in> set (orEmpty (staffList gs)). isActive g \<and> sm_id g = e_staffId e"
      using g i by auto
    with o show ?thesis by blast
  qed
  from v 1 2 show ?thesis by blast
qed

lemma viewA:
  "map (\<lambda>e. (e_staffId e, e_unit e, e_isOrphanedUnit e, e_displayUnit e, e_group e, e_isOrphanedGroup e, e_displayGroup e))
     (viewEntries (projr (getStaffByUnit codeUnitCompare False False (Some settingsA) (Some weekA))))
   = [(''s3'', ''II'', False, ''II'', ''G'', False, ''G''),
      (''s1'', [], False, [], ''Gone'', True, ''Gone'' @ deletedSuffix)]"
  by (simp add: ev exA)

text \<open>
  The claim as the specification words it fails on an override that sets the unit to the
  empty string: the record supplies a value that is in no category list, and the flag is
  false. The display string of an orphaned value does not end in \<^verbatim>\<open>(deleted)\<close> either.
\<close>

theorem orphan_flags_counterexample:
  "overrideValue (Some weekA) ''s1'' ws_unit = Some []
   \<and> [] \<notin> set (categories units (Some settingsA))
   \<and> map_sum id (map (\<lambda>e. (e_staffId e, e_isOrphanedUnit e, e_displayGroup e)) \<circ> viewEntries)
         (getStaffByUnit codeUnitCompare False False (Some settingsA) (Some weekA))
       = Inr [(''s3'', False, ''G''), (''s1'', False, ''Gone'' @ deletedSuffix)]
   \<and> ''Gone'' @ deletedSuffix \<noteq> ''Gone (deleted)''"
proof -
  have "overrideValue (Some weekA) ''s1'' ws_unit = Some []"
    by (simp add: overrideValue_def overrideA)
  moreover have "[] \<notin> set (categories units (Some settingsA))"
    by (simp add: categories_def exA orEmpty_def)
  moreover have "map_sum id (map (\<lambda>e. (e_staffId e, e_isOrphanedUnit e, e_displayGroup e)) \<circ> viewEntries)
         (getStaffByUnit codeUnitCompare False False (Some settingsA) (Some weekA))
       = Inr [(''s3'', False, ''G''), (''s1'', False, ''Gone'' @ deletedSuffix)]"
    by (simp add: ev exA)
  moreover have "''Gone'' @ deletedSuffix \<noteq> ''Gone (deleted)''"
    by (simp add: deletedSuffix_def)
  ultimately show ?thesis by blast
qed

theorem orphan_flags_witness:
  "plainInputs (Some settingsA) (Some weekA)
   \<and> getStaffByUnit codeUnitCompare False False (Some settingsA) (Some weekA)
       = Inr (projr (getStaffByUnit codeUnitCompare False False (Some settingsA) (Some weekA)))
   \<and> member ''s1'' ''I'' ''G'' ''J'' True 0 \<in> set (orEmpty (staffList settingsA))
   \<and> isActive (member ''s1'' ''I'' ''G'' ''J'' True 0)
   \<and> (\<exists>e \<in> set (viewEntries (projr (getStaffByUnit codeUnitCompare False False (Some settingsA) (Some weekA)))).
         e_staffId e = ''s1'')
   \<and> last (viewEntries (projr (getStaffByUnit codeUnitCompare False False (Some settingsA) (Some weekA))))
     \<in> set (viewEntries (projr (getStaffByUnit codeUnitCompare False False (Some settingsA) (Some weekA))))
   \<and> e_staffId (last (viewEntries (projr (getStaffByUnit codeUnitCompare False False (Some settingsA) (Some weekA)))))
       = ''s1''
   \<and> overrideValue (Some weekA) ''s1'' ws_group = Some ''Gone''
   \<and> e_isOrphanedGroup
        (last (viewEntries (projr (getStaffByUnit codeUnitCompare False False (Some settingsA) (Some weekA)))))
   \<and> overrideValue (Some weekA) ''s1'' ws_unit = Some []
   \<and> \<not> e_isOrphanedUnit
        (last (viewEntries (projr (getStaffByUnit codeUnitCompare False False (Some settingsA) (Some weekA)))))
   \<and> overrideValue (Some weekA) ''s1'' ws_jobTitle = None
   \<and> \<not> e_isOrphanedJobTitle
        (last (viewEntries (projr (getStaffByUnit codeUnitCompare False False (Some settingsA) (Some weekA)))))"
proof -
  let ?V = "viewEntries (projr (getStaffByUnit codeUnitCompare False False (Some settingsA) (Some weekA)))"
  have g: "member ''s1'' ''I'' ''G'' ''J'' True 0 \<in> set (orEmpty (staffList settingsA))"
    by (simp add: exA orEmpty_def)
  have a: "isActive (member ''s1'' ''I'' ''G'' ''J'' True 0)"
    by (simp add: isActive_def member_def)
  have s: "sm_id (member ''s1'' ''I'' ''G'' ''J'' True 0) = ''s1''" by (simp add: member_def)
  from viewA have "?V \<noteq> []" by auto
  then have m: "last ?V \<in> set ?V" by (rule last_in_set)
  from \<open>?V \<noteq> []\<close> have "e_staffId (last ?V) = last (map e_staffId ?V)"
    by (simp add: last_map)
  then have i: "e_staffId (last ?V) = ''s1''"
    unfolding idsA by simp
  have og: "overrideValue (Some weekA) ''s1'' ws_group = Some ''Gone''"
    and ou: "overrideValue (Some weekA) ''s1'' ws_unit = Some []"
    and oj: "overrideValue (Some weekA) ''s1'' ws_jobTitle = None"
    by (simp_all add: overrideValue_def overrideA)
  have c: "''Gone'' \<notin> set (orEmpty (groups settingsA))"
    by (simp add: exA orEmpty_def)
  from orphan_flags[OF plainA, of codeUnitCompare] obtain view where P:
    "getStaffByUnit codeUnitCompare False False (Some settingsA) (Some weekA) = Inr view
    \<and> (\<forall>g \<in> set (orEmpty (staffList settingsA)). isActive g \<longrightarrow>
        (\<exists>e \<in> set (viewEntries view). e_staffId e = sm_id g))
    \<and> (\<forall>e \<in> set (viewEntries view).
        (\<exists>g \<in> set (orEmpty (staffList settingsA)). isActive g \<and> sm_id g = e_staffId e)
      \<and> (e_isOrphanedUnit e \<longleftrightarrow>
           (\<exists>v. overrideValue (Some weekA) (e_staffId e) ws_unit = Some v \<and> v \<noteq> []
                \<and> v \<notin> set (orEmpty (units settingsA))))
      \<and> (e_isOrphanedGroup e \<longleftrightarrow>
           (\<exists>v. overrideValue (Some weekA) (e_staffId e) ws_group = Some v \<and> v \<noteq> []
                \<and> v \<notin> set (orEmpty (groups settingsA))))
      \<and> (e_isOrphanedJobTitle e \<longleftrightarrow>
           (\<exists>v. overrideValue (Some weekA) (e_staffId e) ws_jobTitle = Some v \<and> v \<noteq> []
                \<and> v \<notin> set (orEmpty (jobTitles settingsA))))
      \<and> e_displayUnit e = (if e_isOrphanedUnit e then e_unit e @ deletedSuffix else e_unit e)
      \<and> e_displayGroup e = (if e_isOrphanedGroup e then e_group e @ deletedSuffix else e_group e)
      \<and> e_displayJobTitle e
          = (if e_isOrphanedJobTitle e then e_jobTitle e @ deletedSuffix else e_jobTitle e))" ..
  note v = P[THEN conjunct1] and T1 = P[THEN conjunct2, THEN conjunct1]
    and T2 = P[THEN conjunct2, THEN conjunct2]
  from v returnsA have view: "view = projr (getStaffByUnit codeUnitCompare False False (Some settingsA) (Some weekA))"
    by simp
  from T1 g a s have 1: "\<exists>e \<in> set ?V. e_staffId e = ''s1''"
    unfolding view by metis
  from T2[unfolded view, rule_format, OF m] og c
  have 2: "e_isOrphanedGroup (last ?V)" unfolding i by simp
  from T2[unfolded view, rule_format, OF m] ou
  have 3: "\<not> e_isOrphanedUnit (last ?V)" unfolding i by simp
  from T2[unfolded view, rule_format, OF m] oj
  have 4: "\<not> e_isOrphanedJobTitle (last ?V)" unfolding i by simp
  from plainA returnsA g a 1 m i og ou oj 2 3 4 show ?thesis by blast
qed

section \<open>The order of buckets and of entries\<close>

lemmas exB = settingsNumeral_def settingsCycle_def weekCycle_def mkSettings_def member_def

text \<open>
  Claim C2 at a failing input. The unit categories are \<open>B\<close> and \<open>1\<close>, in this order, and
  each has an active member. The code sorts the keys as the claim says, \<open>B\<close> before
  \<open>1\<close>, and then stores the buckets in a plain object, which enumerates the key
  \<open>1\<close> first, being an array index: the buckets of the view come out in the order
  \<open>1\<close>, \<open>B\<close>.
\<close>

theorem unit_order_numeral_keys:
  "orEmpty (units settingsNumeral) = [''B'', ''1'']
   \<and> map_sum id (sortedUnitKeys codeUnitCompare settingsNumeral)
        (groupedByUnit (combinedStaffList settingsNumeral None)) = Inr [''B'', ''1'']
   \<and> map_sum id Object_keys (getStaffByUnit codeUnitCompare False False (Some settingsNumeral) None)
        = Inr [''1'', ''B'']"
  by (simp add: ev exB)

text \<open>
  Claim C3 at a failing input. In one bucket, \<open>s1\<close> and \<open>s3\<close> have the orphaned
  groups \<open>Z\<close> and \<open>X\<close>, and \<open>s2\<close> has no group at all, which is not orphaned and has
  no place in the category order either. The comparator compares the two orphaned groups
  by name, and compares each of them with \<open>s2\<close> by roster order only: it puts \<open>s1\<close>
  before \<open>s2\<close>, \<open>s2\<close> before \<open>s3\<close> and \<open>s3\<close> before \<open>s1\<close>. The bucket comes out
  with the orphaned group \<open>Z\<close> before the orphaned group \<open>X\<close>.
\<close>

theorem bucket_order_cycle:
  "map_sum id (\<lambda>view. map (\<lambda>e. (e_staffId e, e_group e, e_isOrphanedGroup e))
                         (orEmpty (objGet view ''U'')))
     (getStaffByUnit codeUnitCompare False False (Some settingsCycle) (Some weekCycle))
     = Inr [(''s1'', ''Z'', True), (''s2'', [], False), (''s3'', ''X'', True)]
   \<and> codeUnitCompare ''X'' ''Z'' < 0
   \<and> staffCompare codeUnitCompare settingsCycle
         (combinedStaffList settingsCycle (Some weekCycle) ! 0)
         (combinedStaffList settingsCycle (Some weekCycle) ! 1) < 0
   \<and> staffCompare codeUnitCompare settingsCycle
         (combinedStaffList settingsCycle (Some weekCycle) ! 1)
         (combinedStaffList settingsCycle (Some weekCycle) ! 2) < 0
   \<and> staffCompare codeUnitCompare settingsCycle
         (combinedStaffList settingsCycle (Some weekCycle) ! 2)
         (combinedStaffList settingsCycle (Some weekCycle) ! 0) < 0"
  by (simp add: ev exB)

subsection \<open>The order of the unit buckets when no unit is named by a numeral\<close>

lemma createOrderMap_fold:
  "distinct (map snd ps) \<Longrightarrow> snd ` set ps \<inter> fst ` set acc = {} \<Longrightarrow> ''__proto__'' \<notin> fst ` set acc \<Longrightarrow>
     foldl (\<lambda>m p. objAssign m (snd p) (fst p)) acc ps
       = acc @ map (\<lambda>p. (snd p, fst p)) (filter (\<lambda>p. snd p \<noteq> ''__proto__'') ps)"
proof (induction ps arbitrary: acc)
  case Nil
  show ?case by simp
next
  case (Cons p ps)
  show ?case
  proof (cases "snd p = ''__proto__''")
    case True
    moreover have "snd ` set ps \<inter> fst ` set acc = {}" "distinct (map snd ps)"
      using Cons.prems by auto
    ultimately show ?thesis
      using Cons.IH[of acc] Cons.prems(3) by (simp add: objAssign_def)
  next
    case False
    have fresh: "snd p \<notin> fst ` set acc" using Cons.prems by auto
    have "snd ` set ps \<inter> fst ` set (acc @ [(snd p, fst p)]) = {}"
      using Cons.prems by auto
    moreover have "distinct (map snd ps)" using Cons.prems by simp
    moreover have "''__proto__'' \<notin> fst ` set (acc @ [(snd p, fst p)])"
      using False Cons.prems(3) by auto
    ultimately show ?thesis
      using Cons.IH[of "acc @ [(snd p, fst p)]"] fresh False
      by (simp add: objSet_fresh objAssign_def)
  qed
qed

text \<open>The order map of a list without duplicates: each name with its place, except the
  name \<^verbatim>\<open>__proto__\<close>, whose assignment creates no property.\<close>

lemma createOrderMap_distinct:
  assumes "distinct us"
  shows "createOrderMap us = filter (\<lambda>p. fst p \<noteq> ''__proto__'') (zip us [0..<length us])"
proof -
  have "map snd (enumerate 0 us) = us" by (simp add: enumerate_eq_zip)
  with assms have "createOrderMap us
      = map (\<lambda>p. (snd p, fst p)) (filter (\<lambda>p. snd p \<noteq> ''__proto__'') (enumerate 0 us))"
    unfolding createOrderMap_def using createOrderMap_fold[of "enumerate 0 us" "[]"] by simp
  also have "\<dots> = filter (\<lambda>p. fst p \<noteq> ''__proto__'') (map (\<lambda>p. (snd p, fst p)) (enumerate 0 us))"
    by (simp add: filter_map comp_def)
  also have "map (\<lambda>p. (snd p, fst p)) (enumerate 0 us) = zip us [0..<length us]"
    by (simp add: enumerate_eq_zip zip_commute[of us] map_prod_def split_def)
  finally show ?thesis .
qed

lemma map_of_filter_key:
  "k \<noteq> c \<Longrightarrow> map_of (filter (\<lambda>p. fst p \<noteq> c) xs) k = map_of xs k"
  by (induction xs) auto

lemma position_nth: "distinct us \<Longrightarrow> i < length us \<Longrightarrow> position us (us ! i) = i"
proof (induction us arbitrary: i)
  case Nil
  then show ?case by simp
next
  case (Cons u us)
  show ?case
  proof (cases i)
    case 0
    then show ?thesis by (simp add: position_def)
  next
    case (Suc j)
    with Cons.prems have "us ! j \<noteq> u" by auto
    with Suc Cons show ?thesis by (simp add: position_def)
  qed
qed

lemma orderIndex_position:
  assumes "distinct us" and "k \<in> set us" and "k \<noteq> ''__proto__''"
  shows "orderIndex (createOrderMap us) k = Index (int (position us k))"
proof -
  from assms(2) obtain i where i: "i < length us" "us ! i = k"
    by (auto simp: in_set_conv_nth)
  have "map_of (zip us [0..<length us]) (us ! i) = Some ([0..<length us] ! i)"
    by (rule map_of_zip_nth) (use assms(1) i in simp_all)
  then have "map_of (zip us [0..<length us]) k = Some i"
    using i by simp
  moreover have "position us k = i"
    using position_nth[OF assms(1) i(1)] i(2) by simp
  ultimately show ?thesis
    by (simp add: orderIndex_def objRead_def objGet_def createOrderMap_distinct[OF assms(1)]
        map_of_filter_key[OF assms(3)])
qed

lemma orderIndex_missing:
  assumes "distinct us" and "k \<notin> set us" and "k \<notin> set protoKeys"
  shows "orderIndex (createOrderMap us) k = Infinity"
proof -
  from assms(2) have n: "map_of (zip us [0..<length us]) k = None"
    by (auto simp: map_of_eq_None_iff dest: set_zip_leftD)
  from assms(3) have p: "k \<noteq> ''__proto__''" using proto_in_protoKeys by metis
  have "objGet (createOrderMap us) k = None"
    unfolding createOrderMap_distinct[OF assms(1)] objGet_def map_of_filter_key[OF p] by (rule n)
  then show ?thesis
    using assms(3) by (simp add: orderIndex_def objRead_def)
qed

lemma unitIndex_cases:
  assumes "distinct us" and "k \<noteq> ''__proto__''"
  shows "unitIndex us k = (if unitRank us k = 0 then Index (int (position us k)) else Infinity)"
  using orderIndex_position[OF assms(1) _ assms(2)]
  by (auto simp: unitIndex_def unitRank_def)

lemma unitCompare_le:
  assumes "distinct us" and "a \<noteq> b" and "a \<noteq> ''__proto__''" and "b \<noteq> ''__proto__''"
  shows "unitCompare lc us a b \<le> 0 \<longleftrightarrow>
           (unitRank us a < unitRank us b
            \<or> (unitRank us a = unitRank us b
                \<and> (if unitRank us a = 0 then position us a < position us b
                     else unitRank us a = 1 \<and> lc a b \<le> 0)))"
proof -
  have r: "unitRank us k = 2 \<longleftrightarrow> k = []" "unitRank us k \<le> 2" for k
    by (auto simp: unitRank_def)
  have p: "position us a \<noteq> position us b" if "unitRank us a = 0" "unitRank us b = 0"
  proof -
    from that have "a \<in> set us" "b \<in> set us" by (auto simp: unitRank_def split: if_splits)
    then obtain i j where "i < length us" "us ! i = a" "j < length us" "us ! j = b"
      by (auto simp: in_set_conv_nth)
    with assms position_nth[OF assms(1)] show ?thesis by metis
  qed
  show ?thesis
  proof (cases "a = []")
    case True
    with assms(2) have "unitRank us a = 2" "unitRank us b < 2"
      using r(1)[of a] r(1)[of b] r(2)[of b] by auto
    with True show ?thesis by (simp add: unitCompare_def Let_def)
  next
    case a: False
    show ?thesis
    proof (cases "b = []")
      case True
      with a have "unitRank us b = 2" "unitRank us a < 2"
        using r(1)[of a] r(1)[of b] r(2)[of a] by auto
      with True a show ?thesis by (simp add: unitCompare_def Let_def)
    next
      case b: False
      from a b have ra: "unitRank us a = 0 \<or> unitRank us a = 1"
        and rb: "unitRank us b = 0 \<or> unitRank us b = 1"
        by (auto simp: unitRank_def)
      from ra rb a b p show ?thesis
        by (auto simp: unitCompare_def Let_def unitIndex_cases[OF assms(1,3)]
            unitIndex_cases[OF assms(1,4)] indexMinus_def)
    qed
  qed
qed

lemma sorted_insertSorted:
  assumes s: "sorted_wrt (\<lambda>a b. cmp a b \<le> 0) ys"
    and total: "\<And>y. y \<in> set ys \<Longrightarrow> cmp x y \<le> 0 \<or> cmp y x \<le> 0"
    and trans: "\<And>y z. y \<in> set ys \<Longrightarrow> z \<in> set ys \<Longrightarrow> cmp x y \<le> 0 \<Longrightarrow> cmp y z \<le> 0
                  \<Longrightarrow> cmp x z \<le> 0"
  shows "sorted_wrt (\<lambda>a b. cmp a b \<le> 0) (insertSorted cmp x ys)"
proof -
  define R where "R = (\<lambda>a b. cmp a b \<le> 0)"
  have ins: "insertSorted cmp x (y # zs) = (if R x y then x # y # zs else y # insertSorted cmp x zs)"
    for y zs by (simp add: R_def)
  have "sorted_wrt R zs \<Longrightarrow> (\<forall>y \<in> set zs. R x y \<or> R y x) \<Longrightarrow>
        (\<forall>y \<in> set zs. \<forall>z \<in> set zs. R x y \<longrightarrow> R y z \<longrightarrow> R x z) \<Longrightarrow>
        sorted_wrt R (insertSorted cmp x zs)" for zs
  proof (induction zs)
    case Nil
    then show ?case by simp
  next
    case (Cons y zs)
    from Cons.prems(1) have sz: "sorted_wrt R zs" and h: "\<forall>z \<in> set zs. R y z"
      by simp_all
    show ?case
    proof (cases "R x y")
      case True
      have "\<forall>z \<in> set zs. R x z"
        using Cons.prems(3) True h by (meson list.set_intros)
      then show ?thesis
        unfolding ins using True Cons.prems(1) by simp
    next
      case False
      then have yx: "R y x" using Cons.prems(2) by (meson list.set_intros(1))
      have "sorted_wrt R (insertSorted cmp x zs)"
        using Cons.IH[OF sz] Cons.prems(2,3) by (meson list.set_intros(2))
      moreover have "\<forall>z \<in> set (insertSorted cmp x zs). R y z"
        using yx h by (simp add: set_insertSorted)
      ultimately show ?thesis
        unfolding ins using False by simp
    qed
  qed
  from this[of ys] s total trans show ?thesis
    unfolding R_def by blast
qed

lemma Object_keys_no_index:
  "\<forall>k \<in> fst ` set obj. \<not> isArrayIndex k \<Longrightarrow> Object_keys obj = map fst obj"
proof -
  assume a: "\<forall>k \<in> fst ` set obj. \<not> isArrayIndex k"
  then have "filter isArrayIndex (map fst obj) = []"
    by (auto simp: filter_empty_conv)
  moreover from a have "filter (\<lambda>k. \<not> isArrayIndex k) (map fst obj) = map fst obj"
    by (auto simp: filter_id_conv)
  ultimately show ?thesis by (simp add: Object_keys_def)
qed

lemma sorted_jsSort_distinct:
  assumes "distinct xs"
    and total: "\<forall>x \<in> set xs. \<forall>y \<in> set xs. x \<noteq> y \<longrightarrow> cmp x y \<le> 0 \<or> cmp y x \<le> 0"
    and trans: "\<forall>x \<in> set xs. \<forall>y \<in> set xs. \<forall>z \<in> set xs.
                  x \<noteq> y \<longrightarrow> y \<noteq> z \<longrightarrow> x \<noteq> z \<longrightarrow> cmp x y \<le> 0 \<longrightarrow> cmp y z \<le> 0 \<longrightarrow> cmp x z \<le> 0"
  shows "sorted_wrt (\<lambda>a b. cmp a b \<le> 0) (jsSort cmp xs)"
  using assms
proof (induction xs)
  case Nil
  show ?case by simp
next
  case (Cons x xs)
  from Cons.prems(1) have d: "distinct xs" and nx: "x \<notin> set xs" by simp_all
  have t: "\<forall>a \<in> set xs. \<forall>b \<in> set xs. a \<noteq> b \<longrightarrow> cmp a b \<le> 0 \<or> cmp b a \<le> 0"
    using Cons.prems(2) by (metis list.set_intros(2))
  have r: "\<forall>a \<in> set xs. \<forall>b \<in> set xs. \<forall>c \<in> set xs.
             a \<noteq> b \<longrightarrow> b \<noteq> c \<longrightarrow> a \<noteq> c \<longrightarrow> cmp a b \<le> 0 \<longrightarrow> cmp b c \<le> 0 \<longrightarrow> cmp a c \<le> 0"
    using Cons.prems(3) by (metis list.set_intros(2))
  have s: "sorted_wrt (\<lambda>a b. cmp a b \<le> 0) (jsSort cmp xs)"
    by (rule Cons.IH[OF d t r])
  have "sorted_wrt (\<lambda>a b. cmp a b \<le> 0) (insertSorted cmp x (jsSort cmp xs))"
  proof (rule sorted_insertSorted[OF s])
    fix y assume "y \<in> set (jsSort cmp xs)"
    then have y: "y \<in> set xs" by (simp add: set_jsSort)
    with nx have "x \<noteq> y" by auto
    with y show "cmp x y \<le> 0 \<or> cmp y x \<le> 0"
      using Cons.prems(2) by (metis list.set_intros)
  next
    fix y z assume "y \<in> set (jsSort cmp xs)" "z \<in> set (jsSort cmp xs)"
      and c: "cmp x y \<le> 0" "cmp y z \<le> 0"
    then have y: "y \<in> set xs" and z: "z \<in> set xs" by (simp_all add: set_jsSort)
    with nx have n: "x \<noteq> y" "x \<noteq> z" by auto
    show "cmp x z \<le> 0"
    proof (cases "y = z")
      case True
      with c show ?thesis by simp
    next
      case False
      with n y z c show ?thesis
        using Cons.prems(3) by (metis list.set_intros)
    qed
  qed
  then show ?case by simp
qed


lemma position_inj:
  assumes "distinct us" and "unitRank us a = 0" and "unitRank us b = 0" and "a \<noteq> b"
  shows "position us a \<noteq> position us b"
proof -
  from assms(2,3) have "a \<in> set us" "b \<in> set us"
    by (auto simp: unitRank_def split: if_splits)
  then obtain i j where "i < length us" "us ! i = a" "j < length us" "us ! j = b"
    by (auto simp: in_set_conv_nth)
  with assms(4) position_nth[OF assms(1)] show ?thesis by metis
qed

lemma unitRank_empty: "unitRank us k = 2 \<longleftrightarrow> k = []"
  by (simp add: unitRank_def)

lemma unit_keys_sorted:
  assumes d: "distinct us" and dk: "distinct ks" and np: "''__proto__'' \<notin> set ks"
    and tot: "\<forall>a \<in> set ks. \<forall>b \<in> set ks.
                unitRank us a = 1 \<longrightarrow> unitRank us b = 1 \<longrightarrow> lc a b \<le> 0 \<or> lc b a \<le> 0"
    and tr: "\<forall>a \<in> set ks. \<forall>b \<in> set ks. \<forall>c \<in> set ks.
                unitRank us a = 1 \<longrightarrow> unitRank us b = 1 \<longrightarrow> unitRank us c = 1 \<longrightarrow>
                lc a b \<le> 0 \<longrightarrow> lc b c \<le> 0 \<longrightarrow> lc a c \<le> 0"
  shows "sorted_wrt (unitBefore lc us) (jsSort (unitCompare lc us) ks)"
proof -
  define S where "S = (\<lambda>a b. unitRank us a < unitRank us b
            \<or> (unitRank us a = unitRank us b
                \<and> (if unitRank us a = 0 then position us a < position us b
                     else unitRank us a = 1 \<and> lc a b \<le> 0)))"
  have le: "unitCompare lc us a b \<le> 0 \<longleftrightarrow> S a b" if "a \<noteq> b" "a \<in> set ks" "b \<in> set ks" for a b
  proof -
    from that np have "a \<noteq> ''__proto__''" "b \<noteq> ''__proto__''" by auto
    then show ?thesis
      unfolding S_def by (rule unitCompare_le[OF d that(1)])
  qed
  have total: "S a b \<or> S b a" if "a \<in> set ks" "b \<in> set ks" "a \<noteq> b" for a b
  proof (cases "unitRank us a = unitRank us b")
    case False
    then have "unitRank us a < unitRank us b \<or> unitRank us b < unitRank us a" by linarith
    then show ?thesis by (auto simp: S_def)
  next
    case True
    have "unitRank us a = 0 \<or> unitRank us a = 1 \<or> unitRank us a = 2"
      by (simp add: unitRank_def)
    then show ?thesis
    proof (elim disjE)
      assume 0: "unitRank us a = 0"
      with True position_inj[OF d _ _ that(3)] have "position us a \<noteq> position us b" by simp
      with 0 True show ?thesis by (auto simp: S_def)
    next
      assume 1: "unitRank us a = 1"
      with True tot that have "lc a b \<le> 0 \<or> lc b a \<le> 0" by simp
      with 1 True show ?thesis by (auto simp: S_def)
    next
      assume 2: "unitRank us a = 2"
      with True that(3) show ?thesis by (simp add: unitRank_empty)
    qed
  qed
  have trans: "S a c" if "a \<in> set ks" "b \<in> set ks" "c \<in> set ks" "S a b" "S b c" for a b c
  proof -
    have "lc a c \<le> 0"
      if "unitRank us a = 1" "unitRank us b = 1" "unitRank us c = 1" "lc a b \<le> 0" "lc b c \<le> 0"
      using tr \<open>a \<in> set ks\<close> \<open>b \<in> set ks\<close> \<open>c \<in> set ks\<close> that by blast
    with that(4,5) show ?thesis
      unfolding S_def by (auto split: if_splits)
  qed
  have "sorted_wrt (\<lambda>a b. unitCompare lc us a b \<le> 0) (jsSort (unitCompare lc us) ks)"
  proof (rule sorted_jsSort_distinct[OF dk])
    show "\<forall>x \<in> set ks. \<forall>y \<in> set ks. x \<noteq> y \<longrightarrow>
            unitCompare lc us x y \<le> 0 \<or> unitCompare lc us y x \<le> 0"
      using total le by (metis (full_types))
    show "\<forall>x \<in> set ks. \<forall>y \<in> set ks. \<forall>z \<in> set ks. x \<noteq> y \<longrightarrow> y \<noteq> z \<longrightarrow> x \<noteq> z \<longrightarrow>
            unitCompare lc us x y \<le> 0 \<longrightarrow> unitCompare lc us y z \<le> 0 \<longrightarrow> unitCompare lc us x z \<le> 0"
      using trans le by (metis (full_types))
  qed
  moreover have "unitBefore lc us a b"
    if "a \<in> set (jsSort (unitCompare lc us) ks)" "b \<in> set (jsSort (unitCompare lc us) ks)"
      "unitCompare lc us a b \<le> 0" for a b
  proof (cases "a = b")
    case True
    from that(1) have "a \<in> set ks" by (simp add: set_jsSort)
    with tot have "unitRank us a = 1 \<longrightarrow> lc a a \<le> 0" by blast
    with True show ?thesis by (auto simp: unitBefore_def)
  next
    case False
    from that(1,2) have "a \<in> set ks" "b \<in> set ks" by (simp_all add: set_jsSort)
    with False that(3) le have "S a b" by simp
    then show ?thesis
      unfolding S_def unitBefore_def by (auto split: if_splits)
  qed
  ultimately show ?thesis
    by (rule sorted_wrt_mono_rel[rotated])
qed


text \<open>
  What holds of the order of the unit buckets. When the call returns a view, the category
  list of units has no duplicates, no effective unit is named by an array index, and
  \<^verbatim>\<open>localeCompare\<close> is total and transitive on the unit names that are not categories,
  the view enumerates its buckets in the order of the specification.
\<close>

lemma view_unit_order:
  assumes v: "getStaffByUnit lc False False (Some gs) sched = Inr view"
    and "distinct (orEmpty (units gs))"
    and "\<forall>e \<in> set (combinedStaffList gs sched). \<not> isArrayIndex (e_unit e)"
    and "\<forall>a \<in> e_unit ` set (combinedStaffList gs sched).
         \<forall>b \<in> e_unit ` set (combinedStaffList gs sched).
           unitRank (orEmpty (units gs)) a = 1 \<longrightarrow> unitRank (orEmpty (units gs)) b = 1 \<longrightarrow>
           lc a b \<le> 0 \<or> lc b a \<le> 0"
    and "\<forall>a \<in> e_unit ` set (combinedStaffList gs sched).
         \<forall>b \<in> e_unit ` set (combinedStaffList gs sched).
         \<forall>c \<in> e_unit ` set (combinedStaffList gs sched).
           unitRank (orEmpty (units gs)) a = 1 \<longrightarrow> unitRank (orEmpty (units gs)) b = 1 \<longrightarrow>
           unitRank (orEmpty (units gs)) c = 1 \<longrightarrow>
           lc a b \<le> 0 \<longrightarrow> lc b c \<le> 0 \<longrightarrow> lc a c \<le> 0"
  shows "sorted_wrt (unitBefore lc (orEmpty (units gs))) (Object_keys view)"
proof (rule getStaffByUnit_view[OF v])
  fix g
  assume g: "distinct (map fst g)" "fst ` set g = e_unit ` set (combinedStaffList gs sched)"
    "view = map (\<lambda>k. (k, jsSort (staffCompare lc gs)
                                (filter (\<lambda>e. e_unit e = k) (combinedStaffList gs sched))))
                  (sortedUnitKeys lc gs g)"
  let ?ks = "Object_keys g"
  have s: "set ?ks = e_unit ` set (combinedStaffList gs sched)"
    by (simp add: set_Object_keys g(2))
  have d: "distinct ?ks"
    by (rule distinct_Object_keys) (rule g(1))
  from v have "\<exists>w. getStaffByUnit lc False False (Some gs) sched = Inr w" by simp
  then have "\<forall>e \<in> set (combinedStaffList gs sched). e_unit e \<notin> set protoKeys"
    by (simp only: getStaffByUnit_Inr_iff)
  then have np: "''__proto__'' \<notin> set ?ks"
    unfolding s using proto_in_protoKeys by auto
  have k: "map fst view = sortedUnitKeys lc gs g"
    unfolding g(3) by (simp add: comp_def)
  have "fst ` set view = e_unit ` set (combinedStaffList gs sched)"
    using getStaffByUnit_keys[OF v] by simp
  with assms(3) have "\<forall>k \<in> fst ` set view. \<not> isArrayIndex k" by auto
  then have o: "Object_keys view = map fst view" by (rule Object_keys_no_index)
  have "sorted_wrt (unitBefore lc (orEmpty (units gs)))
          (jsSort (unitCompare lc (orEmpty (units gs))) ?ks)"
    by (rule unit_keys_sorted[OF assms(2) d np]) (use assms(4,5) in \<open>simp_all only: s\<close>)
  then show ?thesis
    by (simp add: o k sortedUnitKeys_def)
qed

subsection \<open>The order within a bucket when every value outside the categories is flagged\<close>

text \<open>
  The comparator of the buckets gives an entry the index \<^verbatim>\<open>Infinity\<close> for a group that
  is flagged as orphaned, and also for one that is not flagged and not in the list: the
  empty group, or a roster default that names a deleted group (for a name of a member of
  \<^verbatim>\<open>Object.prototype\<close> the index is that member). Only two flagged entries are
  compared by name. The lemmas below are about the views without an entry of the second
  kind.
\<close>

lemma consistentD:
  assumes "consistent c A"
  shows "a \<in> A \<Longrightarrow> c a a = 0"
    and "a \<in> A \<Longrightarrow> b \<in> A \<Longrightarrow> (c a b < 0) = (0 < c b a)"
    and "a \<in> A \<Longrightarrow> b \<in> A \<Longrightarrow> d \<in> A \<Longrightarrow> c a b \<le> 0 \<Longrightarrow> c b d \<le> 0 \<Longrightarrow> c a d \<le> 0"
  using assms unfolding consistent_def by blast+

lemma consistent_zero_sym:
  assumes "consistent c A" "a \<in> A" "b \<in> A" "c a b = 0"
  shows "c b a = 0"
proof -
  have "\<not> c a b < 0" "\<not> 0 < c a b" using assms(4) by simp_all
  with consistentD(2)[OF assms(1), of a b] consistentD(2)[OF assms(1), of b a] assms(2,3)
  have "\<not> 0 < c b a" "\<not> c b a < 0" by simp_all
  then show ?thesis by linarith
qed

lemma consistent_less_le:
  assumes "consistent c A" "a \<in> A" "b \<in> A" "d \<in> A" "c a b < 0" "c b d \<le> 0"
  shows "c a d < 0"
proof (rule ccontr)
  assume "\<not> c a d < 0"
  moreover have "c a d \<le> 0"
    using consistentD(3)[OF assms(1,2,3,4)] assms(5,6) by simp
  ultimately have "c a d = 0" by linarith
  then have "c d a = 0" by (rule consistent_zero_sym[OF assms(1,2,4)])
  then have "c b a \<le> 0"
    using consistentD(3)[OF assms(1) assms(3,4,2)] assms(6) by simp
  moreover have "0 < c b a"
    using consistentD(2)[OF assms(1,2,3)] assms(5) by simp
  ultimately show False by linarith
qed

lemma consistent_le_less:
  assumes "consistent c A" "a \<in> A" "b \<in> A" "d \<in> A" "c a b \<le> 0" "c b d < 0"
  shows "c a d < 0"
proof (rule ccontr)
  assume "\<not> c a d < 0"
  moreover have "c a d \<le> 0"
    using consistentD(3)[OF assms(1,2,3,4)] assms(5,6) by simp
  ultimately have "c a d = 0" by linarith
  then have "c d a = 0" by (rule consistent_zero_sym[OF assms(1,2,4)])
  then have "c d b \<le> 0"
    using consistentD(3)[OF assms(1) assms(4,2,3)] assms(5) by simp
  moreover have "0 < c d b"
    using consistentD(2)[OF assms(1) assms(3,4)] assms(6) by simp
  ultimately show False by linarith
qed

lemma consistent_lex:
  assumes c1: "consistent c1 A" and c2: "consistent c2 A"
  shows "consistent (\<lambda>a b. lexInt (c1 a b) (c2 a b)) A"
  unfolding consistent_def
proof (intro conjI ballI impI)
  fix a assume "a \<in> A"
  then show "lexInt (c1 a a) (c2 a a) = 0"
    using consistentD(1)[OF c1] consistentD(1)[OF c2] by (simp add: lexInt_def)
next
  fix a b assume ab: "a \<in> A" "b \<in> A"
  show "(lexInt (c1 a b) (c2 a b) < 0) = (0 < lexInt (c1 b a) (c2 b a))"
  proof (cases "c1 a b = 0")
    case True
    then have "c1 b a = 0" by (rule consistent_zero_sym[OF c1 ab])
    with True show ?thesis
      using consistentD(2)[OF c2 ab] by (simp add: lexInt_def)
  next
    case False
    then have "c1 b a \<noteq> 0"
      using consistent_zero_sym[OF c1 ab(2,1)] by blast
    with False show ?thesis
      using consistentD(2)[OF c1 ab] by (simp add: lexInt_def)
  qed
next
  fix a b d assume m: "a \<in> A" "b \<in> A" "d \<in> A"
    and ab: "lexInt (c1 a b) (c2 a b) \<le> 0" and bd: "lexInt (c1 b d) (c2 b d) \<le> 0"
  from ab have ab1: "c1 a b \<le> 0" by (auto simp: lexInt_def split: if_splits)
  from bd have bd1: "c1 b d \<le> 0" by (auto simp: lexInt_def split: if_splits)
  show "lexInt (c1 a d) (c2 a d) \<le> 0"
  proof (cases "c1 a b < 0 \<or> c1 b d < 0")
    case True
    then have "c1 a d < 0"
      using consistent_less_le[OF c1 m] consistent_le_less[OF c1 m] ab1 bd1 by blast
    then show ?thesis by (simp add: lexInt_def)
  next
    case False
    with ab1 bd1 have z: "c1 a b = 0" "c1 b d = 0" by linarith+
    then have "c1 a d \<le> 0" using consistentD(3)[OF c1 m] by simp
    moreover have "c1 d a \<le> 0"
      using consistentD(3)[OF c1 m(3,2,1)] consistent_zero_sym[OF c1 m(1,2) z(1)]
        consistent_zero_sym[OF c1 m(2,3) z(2)] by simp
    ultimately have "c1 a d = 0"
      using consistentD(2)[OF c1 m(1,3)] by linarith
    moreover from z ab bd have "c2 a b \<le> 0" "c2 b d \<le> 0" by (simp_all add: lexInt_def)
    then have "c2 a d \<le> 0" using consistentD(3)[OF c2 m] by simp
    ultimately show ?thesis by (simp add: lexInt_def)
  qed
qed

lemma consistent_pullback:
  assumes "consistent c (f ` A)"
  shows "consistent (\<lambda>a b. c (f a) (f b)) A"
  using assms unfolding consistent_def by (simp add: Ball_def image_iff) metis

lemma consistent_subset: "consistent c B \<Longrightarrow> A \<subseteq> B \<Longrightarrow> consistent c A"
  unfolding consistent_def by (meson subsetD)


lemma consistent_jsMinus: "consistent jsMinus UNIV"
  unfolding consistent_def jsMinus_def
  by (auto split: option.splits)

lemma position_less: "k \<in> set us \<Longrightarrow> position us k < length us"
  unfolding position_def by (induction us) auto

lemma nth_position: "k \<in> set us \<Longrightarrow> us ! position us k = k"
  unfolding position_def by (induction us) auto

lemma position_eq_iff:
  "a \<in> set us \<Longrightarrow> b \<in> set us \<Longrightarrow> position us a = position us b \<longleftrightarrow> a = b"
  using nth_position by metis

lemma consistent_categoryOrder:
  assumes lc: "consistent lc UNIV"
  shows "consistent (categoryOrder lc cats) UNIV"
  unfolding consistent_def
proof (intro conjI ballI impI)
  fix a :: string
  show "categoryOrder lc cats a a = 0"
    using consistentD(1)[OF lc, of a] by (simp add: categoryOrder_def)
next
  fix a b :: string
  show "(categoryOrder lc cats a b < 0) = (0 < categoryOrder lc cats b a)"
    using consistentD(2)[OF lc, of a b] by (simp add: categoryOrder_def)
next
  fix a b d :: string
  assume "categoryOrder lc cats a b \<le> 0" "categoryOrder lc cats b d \<le> 0"
  then show "categoryOrder lc cats a d \<le> 0"
    using consistentD(3)[OF lc, of a b d]
    by (simp add: categoryOrder_def split: if_splits)
qed

lemma consistent_field:
  "consistent c UNIV \<Longrightarrow> consistent (\<lambda>a b. c (f a) (f b)) UNIV"
  by (rule consistent_pullback) (erule consistent_subset, simp)

lemma consistent_staffOrder:
  assumes lc: "consistent lc UNIV"
  shows "consistent (staffOrder lc gs) UNIV"
proof -
  have g: "consistent (\<lambda>a b. categoryOrder lc (orEmpty (groups gs)) (e_group a) (e_group b)) UNIV"
    by (rule consistent_field[of "categoryOrder lc (orEmpty (groups gs))" e_group,
          OF consistent_categoryOrder[OF lc]])
  have j: "consistent (\<lambda>a b. categoryOrder lc (orEmpty (jobTitles gs)) (e_jobTitle a) (e_jobTitle b)) UNIV"
    by (rule consistent_field[of "categoryOrder lc (orEmpty (jobTitles gs))" e_jobTitle,
          OF consistent_categoryOrder[OF lc]])
  have s: "consistent (\<lambda>a b. jsMinus (e_sortOrder a) (e_sortOrder b)) UNIV"
    by (rule consistent_field[of jsMinus e_sortOrder, OF consistent_jsMinus])
  have n: "consistent (\<lambda>a b. lc (orEmptyString (e_name a)) (orEmptyString (e_name b))) UNIV"
    by (rule consistent_field[of lc "\<lambda>e. orEmptyString (e_name e)", OF lc])
  have "staffOrder lc gs = (\<lambda>a b.
     lexInt (categoryOrder lc (orEmpty (groups gs)) (e_group a) (e_group b))
       (lexInt (categoryOrder lc (orEmpty (jobTitles gs)) (e_jobTitle a) (e_jobTitle b))
          (lexInt (jsMinus (e_sortOrder a) (e_sortOrder b))
             (lc (orEmptyString (e_name a)) (orEmptyString (e_name b))))))"
    by (intro ext) (simp add: staffOrder_def)
  then show ?thesis
    using consistent_lex[OF g consistent_lex[OF j consistent_lex[OF s n]]] by simp
qed

lemma sorted_jsSort:
  assumes total: "\<forall>x \<in> set xs. \<forall>y \<in> set xs. cmp x y \<le> 0 \<or> cmp y x \<le> 0"
    and trans: "\<forall>x \<in> set xs. \<forall>y \<in> set xs. \<forall>z \<in> set xs.
                  cmp x y \<le> 0 \<longrightarrow> cmp y z \<le> 0 \<longrightarrow> cmp x z \<le> 0"
  shows "sorted_wrt (\<lambda>a b. cmp a b \<le> 0) (jsSort cmp xs)"
  using assms
proof (induction xs)
  case Nil
  show ?case by simp
next
  case (Cons x xs)
  have t: "\<forall>a \<in> set xs. \<forall>b \<in> set xs. cmp a b \<le> 0 \<or> cmp b a \<le> 0"
    using Cons.prems(1) by (metis list.set_intros(2))
  have r: "\<forall>a \<in> set xs. \<forall>b \<in> set xs. \<forall>c \<in> set xs.
                  cmp a b \<le> 0 \<longrightarrow> cmp b c \<le> 0 \<longrightarrow> cmp a c \<le> 0"
    using Cons.prems(2) by (metis list.set_intros(2))
  have s: "sorted_wrt (\<lambda>a b. cmp a b \<le> 0) (jsSort cmp xs)"
    by (rule Cons.IH[OF t r])
  have "sorted_wrt (\<lambda>a b. cmp a b \<le> 0) (insertSorted cmp x (jsSort cmp xs))"
  proof (rule sorted_insertSorted[OF s])
    fix y assume "y \<in> set (jsSort cmp xs)"
    then have "y \<in> set (x # xs)" by (simp add: set_jsSort)
    then show "cmp x y \<le> 0 \<or> cmp y x \<le> 0"
      using Cons.prems(1) by (metis list.set_intros(1))
  next
    fix y z assume "y \<in> set (jsSort cmp xs)" "z \<in> set (jsSort cmp xs)"
      and c: "cmp x y \<le> 0" "cmp y z \<le> 0"
    then have "y \<in> set (x # xs)" "z \<in> set (x # xs)" by (simp_all add: set_jsSort)
    then show "cmp x z \<le> 0"
      using Cons.prems(2) c by (metis list.set_intros(1))
  qed
  then show ?case by simp
qed


lemma categoryIndex_flagged:
  assumes "distinct cats" and "orphaned \<longleftrightarrow> v \<notin> set cats" and "''__proto__'' \<notin> set cats"
  shows "categoryIndex cats orphaned v
           = (if v \<in> set cats then Index (int (position cats v)) else Infinity)"
proof (cases "v \<in> set cats")
  case True
  with assms(3) have "v \<noteq> ''__proto__''" by auto
  with True assms(1,2) show ?thesis
    by (simp add: categoryIndex_def orderIndex_position)
next
  case False
  with assms(2) show ?thesis by (simp add: categoryIndex_def)
qed

lemma jsMinus_eq_0: "jsMinus a b = 0 \<longleftrightarrow> a = b"
  by (simp add: jsMinus_def split: option.splits)

lemma staffCompare_staffOrder:
  assumes "distinct (orEmpty (groups gs))" and "distinct (orEmpty (jobTitles gs))"
    and "''__proto__'' \<notin> set (orEmpty (groups gs))"
    and "''__proto__'' \<notin> set (orEmpty (jobTitles gs))"
    and "e_isOrphanedGroup a \<longleftrightarrow> e_group a \<notin> set (orEmpty (groups gs))"
    and "e_isOrphanedGroup b \<longleftrightarrow> e_group b \<notin> set (orEmpty (groups gs))"
    and "e_isOrphanedJobTitle a \<longleftrightarrow> e_jobTitle a \<notin> set (orEmpty (jobTitles gs))"
    and "e_isOrphanedJobTitle b \<longleftrightarrow> e_jobTitle b \<notin> set (orEmpty (jobTitles gs))"
  shows "staffCompare lc gs a b = staffOrder lc gs a b"
proof -
  note ci = categoryIndex_flagged[OF assms(1) assms(5) assms(3)]
    categoryIndex_flagged[OF assms(1) assms(6) assms(3)]
    categoryIndex_flagged[OF assms(2) assms(7) assms(4)]
    categoryIndex_flagged[OF assms(2) assms(8) assms(4)]
  show ?thesis
    unfolding staffCompare_def Let_def ci staffOrder_def lexInt_def categoryOrder_def
    using assms(5-8)
    by (simp add: position_eq_iff jsMinus_eq_0 indexMinus_def)
qed

lemma combineStaff_flag_sound:
  assumes "e \<in> set (combinedStaffList gs sched)"
  shows "(e_isOrphanedGroup e \<longrightarrow> e_group e \<notin> set (orEmpty (groups gs)))
       \<and> (e_isOrphanedJobTitle e \<longrightarrow> e_jobTitle e \<notin> set (orEmpty (jobTitles gs)))"
  using assms
  by (auto simp: combinedStaffList_def combineStaff_def Let_def isOrphaned_iff nullish_def)

text \<open>
  When \<^verbatim>\<open>localeCompare\<close> is a consistent comparator, the group and job title lists
  have no duplicates and no item \<^verbatim>\<open>__proto__\<close>, and every group and job title of the
  view that is not in its list is flagged as orphaned, the comparator of the code is the
  order \<open>staffOrder\<close> on the entries of the view, and every bucket of a returned view is
  sorted by it: group, then job title, then \<^verbatim>\<open>sortOrder\<close>, then name.
\<close>

lemma view_bucket_order:
  assumes lc: "consistent lc UNIV"
    and dg: "distinct (orEmpty (groups gs))" and dj: "distinct (orEmpty (jobTitles gs))"
    and pg: "''__proto__'' \<notin> set (orEmpty (groups gs))"
    and pj: "''__proto__'' \<notin> set (orEmpty (jobTitles gs))"
    and fl: "\<forall>e \<in> set (combinedStaffList gs sched). flagged gs e"
    and v: "getStaffByUnit lc False False (Some gs) sched = Inr view"
    and b: "objGet view k = Some bucket"
  shows "sorted_wrt (\<lambda>a b. staffOrder lc gs a b \<le> 0) bucket"
proof -
  define xs where "xs = filter (\<lambda>e. e_unit e = k) (combinedStaffList gs sched)"
  from b have bucket: "bucket = jsSort (staffCompare lc gs) xs"
    unfolding xs_def getStaffByUnit_bucket[OF v] by (simp split: if_splits)
  have eq: "staffCompare lc gs x y = staffOrder lc gs x y" if "x \<in> set xs" "y \<in> set xs" for x y
  proof -
    from that have m: "x \<in> set (combinedStaffList gs sched)" "y \<in> set (combinedStaffList gs sched)"
      by (simp_all add: xs_def)
    with fl have "flagged gs x" "flagged gs y" by blast+
    with combineStaff_flag_sound[OF m(1)] combineStaff_flag_sound[OF m(2)]
    show ?thesis
      by (intro staffCompare_staffOrder[OF dg dj pg pj]) (auto simp: flagged_def)
  qed
  note cs = consistent_staffOrder[OF lc, of gs]
  have total: "staffOrder lc gs x y \<le> 0 \<or> staffOrder lc gs y x \<le> 0" for x y
    using consistentD(2)[OF cs, of y x] by force
  have trans: "staffOrder lc gs x y \<le> 0 \<Longrightarrow> staffOrder lc gs y z \<le> 0
               \<Longrightarrow> staffOrder lc gs x z \<le> 0" for x y z
    using consistentD(3)[OF cs, of x y z] by simp
  have "sorted_wrt (\<lambda>a b. staffCompare lc gs a b \<le> 0) (jsSort (staffCompare lc gs) xs)"
  proof (rule sorted_jsSort)
    show "\<forall>x \<in> set xs. \<forall>y \<in> set xs. staffCompare lc gs x y \<le> 0 \<or> staffCompare lc gs y x \<le> 0"
      using eq total by simp
    show "\<forall>x \<in> set xs. \<forall>y \<in> set xs. \<forall>z \<in> set xs.
            staffCompare lc gs x y \<le> 0 \<longrightarrow> staffCompare lc gs y z \<le> 0
            \<longrightarrow> staffCompare lc gs x z \<le> 0"
      using eq trans by (metis (full_types))
  qed
  moreover have "staffOrder lc gs x y \<le> 0"
    if "x \<in> set (jsSort (staffCompare lc gs) xs)" "y \<in> set (jsSort (staffCompare lc gs) xs)"
      "staffCompare lc gs x y \<le> 0" for x y
    using that eq by (simp add: set_jsSort)
  ultimately have "sorted_wrt (\<lambda>a b. staffOrder lc gs a b \<le> 0) (jsSort (staffCompare lc gs) xs)"
    by (rule sorted_wrt_mono_rel[rotated])
  then show ?thesis by (simp add: bucket)
qed

section \<open>The safety check of a settings save\<close>

lemma safetyCheck_wipe:
  "hadData cur \<Longrightarrow> wipesCategories new \<Longrightarrow> safetyCheck cur new = Some SuspiciousCategories"
  by (auto simp: safetyCheck_def hadData_def wipesCategories_def Let_def)

text \<open>
  Claim C6. When the loaded settings hold data and the new settings have no unit, group
  or job title while they keep staff or shift types, a save without the bypass flag
  returns failure and leaves the stored and the loaded settings as they were (for a
  signed-in user the error is the one of the safety check). With the bypass flag the
  check is skipped: the save succeeds exactly when the write does, and then stores the
  new settings.
\<close>

theorem integrity_guard:
  assumes "globalSettings st = Some cur" and "hadData cur" and "wipesCategories new"
  shows "fst (saveGlobalSettings st (Some new) False writeOk) = False
     \<and> settingsDoc (snd (saveGlobalSettings st (Some new) False writeOk)) = settingsDoc st
     \<and> globalSettings (snd (saveGlobalSettings st (Some new) False writeOk)) = globalSettings st
     \<and> (currentUser st \<longrightarrow>
          saveError (snd (saveGlobalSettings st (Some new) False writeOk)) = Some SuspiciousCategories)
     \<and> (currentUser st \<longrightarrow>
          fst (saveGlobalSettings st (Some new) True writeOk) = writeOk)
     \<and> (currentUser st \<and> writeOk \<longrightarrow>
          settingsDoc (snd (saveGlobalSettings st (Some new) True writeOk))
            = Some (mergeDoc (settingsDoc st) (settingsToSave new)))"
  using assms safetyCheck_wipe[OF assms(2,3)]
  by (simp add: saveGlobalSettings_def)

lemmas exH = hookA_def settingsWiped_def weekOther_def

theorem integrity_guard_witness:
  "globalSettings hookA = Some settingsA \<and> hadData settingsA \<and> wipesCategories settingsWiped
   \<and> currentUser hookA
   \<and> fst (saveGlobalSettings hookA (Some settingsWiped) False True) = False
   \<and> settingsDoc (snd (saveGlobalSettings hookA (Some settingsWiped) False True)) = Some settingsA
   \<and> saveError (snd (saveGlobalSettings hookA (Some settingsWiped) False True))
       = Some SuspiciousCategories
   \<and> fst (saveGlobalSettings hookA (Some settingsWiped) True True) = True
   \<and> settingsDoc (snd (saveGlobalSettings hookA (Some settingsWiped) True True))
       = Some (mergeDoc (Some settingsA) (settingsToSave settingsWiped))"
proof -
  have g: "globalSettings hookA = Some settingsA" by (simp add: hookA_def)
  have h: "hadData settingsA" by (simp add: hadData_def exA orEmpty_def)
  have w: "wipesCategories settingsWiped"
    by (simp add: wipesCategories_def settingsWiped_def exA orEmpty_def)
  have u: "currentUser hookA" by (simp add: hookA_def)
  have d: "settingsDoc hookA = Some settingsA" by (simp add: hookA_def)
  from integrity_guard[OF g h w, of True] u d g h w show ?thesis by simp
qed

section \<open>Records written to a week\<close>

lemma dataToStore_storedFrom: "storedFrom s (dataToStore s)"
  by (simp add: storedFrom_def dataToStore_def orEmptyString_def nullish_def)

lemma dataToStore_complete: "complete (dataToStore s)"
  by (simp add: complete_def dataToStore_def)

lemma saveWeeklySchedule_doc:
  "saveWeeklySchedule st k (Some d) writeOk = (True, st') \<Longrightarrow>
     weeklyDocs st' k = Some \<lparr> weekStartDate = weekStartDate d, staff = map dataToStore (staff d) \<rparr>"
  by (auto simp: saveWeeklySchedule_def split: if_splits)

lemma saveWeeklySchedule_ok:
  "currentUser st \<Longrightarrow>
     saveWeeklySchedule st k (Some d) True
       = (True, st \<lparr> saveError := None,
                      weeklyDocs := (weeklyDocs st)
                        (k \<mapsto> \<lparr> weekStartDate = weekStartDate d,
                                 staff = map dataToStore (staff d) \<rparr>) \<rparr>)"
  by (simp add: saveWeeklySchedule_def)

lemma findIndex_Some:
  "findIndex P xs = Some i \<Longrightarrow> i < length xs \<and> P (xs ! i)"
proof (induction xs arbitrary: i)
  case Nil
  then show ?case by simp
next
  case (Cons x xs)
  then show ?case by (cases "P x") auto
qed

lemma newStaffArray_has: "dataToStore data \<in> set (newStaffArray base data)"
  by (auto simp: newStaffArray_def set_update_memI dest: findIndex_Some split: option.splits)

lemma updateStaffInWeeklySchedule_doc:
  assumes "currentUser st" and "ws_staffId data \<noteq> []"
  shows "\<exists>doc. weeklyDocs (updateStaffInWeeklySchedule st data True) (currentWeekStartDate st) = Some doc
           \<and> staff doc = map dataToStore (newStaffArray (baseSchedule st) data)"
  using assms
  by (simp add: updateStaffInWeeklySchedule_def Let_def saveWeeklySchedule_def)

lemma dataToStore_idem: "dataToStore (dataToStore s) = dataToStore s"
  by (simp add: dataToStore_def orEmptyString_def nullish_def)

text \<open>
  Claim C9. The document a successful \<^verbatim>\<open>saveWeeklySchedule\<close> writes holds, record by
  record, the records it was given with every one of name, unit, group, job title and
  shifts present, a missing or empty field being the empty string (the empty object for
  the shifts). So does the document written through \<^verbatim>\<open>updateStaffInWeeklySchedule\<close>,
  which holds the record of the member that was updated. A record that lacks a field and
  a record that has it as the empty string are stored as the same record.
\<close>

theorem stored_records_complete:
  "(saveWeeklySchedule st k (Some d) writeOk = (True, st') \<longrightarrow>
      (\<exists>doc. weeklyDocs st' k = Some doc
           \<and> list_all2 storedFrom (staff d) (staff doc)
           \<and> (\<forall>r \<in> set (staff doc). complete r)))
   \<and> (currentUser st \<and> ws_staffId data \<noteq> [] \<longrightarrow>
        (\<exists>doc. weeklyDocs (updateStaffInWeeklySchedule st data True) (currentWeekStartDate st)
                 = Some doc
             \<and> (\<forall>r \<in> set (staff doc). complete r)
             \<and> (\<exists>r \<in> set (staff doc). storedFrom data r)))
   \<and> dataToStore (s \<lparr> ws_unit := None \<rparr>) = dataToStore (s \<lparr> ws_unit := Some [] \<rparr>)
   \<and> dataToStore (s \<lparr> ws_group := None \<rparr>) = dataToStore (s \<lparr> ws_group := Some [] \<rparr>)
   \<and> dataToStore (s \<lparr> ws_jobTitle := None \<rparr>) = dataToStore (s \<lparr> ws_jobTitle := Some [] \<rparr>)
   \<and> dataToStore (s \<lparr> ws_name := None \<rparr>) = dataToStore (s \<lparr> ws_name := Some [] \<rparr>)"
proof (intro conjI impI)
  assume a: "saveWeeklySchedule st k (Some d) writeOk = (True, st')"
  have "list_all2 storedFrom (staff d) (map dataToStore (staff d))"
    by (simp add: list_all2_map2 list.rel_refl dataToStore_storedFrom)
  moreover have "\<forall>r \<in> set (map dataToStore (staff d)). complete r"
    by (simp add: dataToStore_complete)
  ultimately show "\<exists>doc. weeklyDocs st' k = Some doc
           \<and> list_all2 storedFrom (staff d) (staff doc)
           \<and> (\<forall>r \<in> set (staff doc). complete r)"
    using saveWeeklySchedule_doc[OF a] by simp
next
  assume a: "currentUser st \<and> ws_staffId data \<noteq> []"
  then obtain doc where doc:
    "weeklyDocs (updateStaffInWeeklySchedule st data True) (currentWeekStartDate st) = Some doc"
    "staff doc = map dataToStore (newStaffArray (baseSchedule st) data)"
    using updateStaffInWeeklySchedule_doc by blast
  have c: "\<forall>r \<in> set (staff doc). complete r"
    by (simp add: doc(2) dataToStore_complete)
  have "dataToStore (dataToStore data) \<in> set (staff doc)"
    unfolding doc(2) using newStaffArray_has by (simp del: dataToStore_idem)
  then have "\<exists>r \<in> set (staff doc). storedFrom data r"
    using dataToStore_storedFrom[of data] by (auto simp: dataToStore_idem)
  with doc(1) c show "\<exists>doc. weeklyDocs (updateStaffInWeeklySchedule st data True) (currentWeekStartDate st)
                 = Some doc
             \<and> (\<forall>r \<in> set (staff doc). complete r)
             \<and> (\<exists>r \<in> set (staff doc). storedFrom data r)"
    by blast
qed (simp_all add: dataToStore_def orEmptyString_def)


theorem stored_records_complete_witness:
  "saveWeeklySchedule hookA ''2024-06-10'' (Some weekA) True
     = (True, snd (saveWeeklySchedule hookA ''2024-06-10'' (Some weekA) True))
   \<and> (\<exists>doc. weeklyDocs (snd (saveWeeklySchedule hookA ''2024-06-10'' (Some weekA) True)) ''2024-06-10''
              = Some doc
          \<and> list_all2 storedFrom (staff weekA) (staff doc)
          \<and> (\<forall>r \<in> set (staff doc). complete r))
   \<and> currentUser hookA \<and> ws_staffId dataB \<noteq> []
   \<and> (\<exists>doc. weeklyDocs (updateStaffInWeeklySchedule hookA dataB True) (currentWeekStartDate hookA)
              = Some doc
          \<and> (\<forall>r \<in> set (staff doc). complete r)
          \<and> (\<exists>r \<in> set (staff doc). storedFrom dataB r))"
proof -
  have u: "currentUser hookA" by (simp add: hookA_def)
  have a: "saveWeeklySchedule hookA ''2024-06-10'' (Some weekA) True
     = (True, snd (saveWeeklySchedule hookA ''2024-06-10'' (Some weekA) True))"
    by (simp add: saveWeeklySchedule_ok[OF u])
  have i: "ws_staffId dataB \<noteq> []" by (simp add: dataB_def)
  from stored_records_complete[of hookA "''2024-06-10''" weekA True
      "snd (saveWeeklySchedule hookA ''2024-06-10'' (Some weekA) True)" dataB]
    a u i
  show ?thesis by blast
qed

section \<open>Deleting a roster member\<close>

lemma saveGlobalSettings_True:
  "saveGlobalSettings st ns bypass writeOk = (True, st') \<Longrightarrow>
     currentUser st \<and> writeOk
     \<and> (\<exists>new. ns = Some new
            \<and> st' = st \<lparr> saveError := None,
                          settingsDoc := Some (mergeDoc (settingsDoc st) (settingsToSave new)) \<rparr>)"
  by (auto simp: saveGlobalSettings_def split: option.splits if_splits)

lemma list_ex_staffId: "list_ex (\<lambda>s. ws_staffId s = sid) xs \<longleftrightarrow> sid \<in> ws_staffId ` set xs"
  by (auto simp: list_ex_iff)

text \<open>
  Claim C10. When \<^verbatim>\<open>deleteStaffFromList\<close> succeeds for a member that has a record in the
  loaded week, the loaded week loses the member's records; the week is saved again, so
  that, the write succeeding, its stored document is the loaded week without them; and
  the stored documents of all other weeks are what they were.
\<close>

theorem delete_removes_week_record:
  assumes "deleteStaffFromList st sid settingsWriteOk weekWriteOk = (True, st')"
    and "currentWeeklySchedule st = Some w"
    and "sid \<in> ws_staffId ` set (staff w)"
  shows "currentWeeklySchedule st'
           = Some (w \<lparr> staff := filter (\<lambda>s. ws_staffId s \<noteq> sid) (staff w) \<rparr>)
     \<and> (weekWriteOk \<longrightarrow>
          weeklyDocs st' (currentWeekStartDate st)
            = Some \<lparr> weekStartDate = weekStartDate w,
                     staff = map dataToStore (filter (\<lambda>s. ws_staffId s \<noteq> sid) (staff w)) \<rparr>)
     \<and> (\<forall>k. k \<noteq> currentWeekStartDate st \<longrightarrow> weeklyDocs st' k = weeklyDocs st k)"
proof -
  from assms(1) obtain gs where gs: "globalSettings st = Some gs" and sid: "sid \<noteq> []"
    by (auto simp: deleteStaffFromList_def split: option.splits if_splits)
  define saved where "saved = saveGlobalSettings st
      (Some (gs \<lparr> staffList := Some (reindex (filter (\<lambda>s. sm_id s \<noteq> sid) (orEmpty (staffList gs)))) \<rparr>))
      False settingsWriteOk"
  have ex: "list_ex (\<lambda>s. ws_staffId s = sid) (staff w)"
    using assms(3) by (simp add: list_ex_staffId)
  from assms(1) gs sid have f: "fst saved = True"
    by (auto simp: deleteStaffFromList_def Let_def saved_def split: if_splits)
  then have s: "saved = (True, snd saved)" by (cases saved) simp
  from saveGlobalSettings_True[OF s[unfolded saved_def], folded saved_def]
  have u: "currentUser (snd saved)" "currentWeeklySchedule (snd saved) = Some w"
    "weeklyDocs (snd saved) = weeklyDocs st"
    "currentWeekStartDate (snd saved) = currentWeekStartDate st"
    using assms(2) by auto
  from assms(1) gs sid f ex assms(2)
  have st': "st' = removeStaffFromWeeklySchedule (snd saved) sid weekWriteOk"
    by (simp add: deleteStaffFromList_def Let_def saved_def)
  show ?thesis
    unfolding st' using u ex
    by (simp add: removeStaffFromWeeklySchedule_def saveWeeklySchedule_def Let_def)
qed

theorem delete_removes_week_record_witness:
  "deleteStaffFromList hookA ''s1'' True True
     = (True, snd (deleteStaffFromList hookA ''s1'' True True))
   \<and> currentWeeklySchedule hookA = Some weekA
   \<and> ''s1'' \<in> ws_staffId ` set (staff weekA)
   \<and> currentWeeklySchedule (snd (deleteStaffFromList hookA ''s1'' True True))
       = Some \<lparr> weekStartDate = ''2024-06-10'', staff = [] \<rparr>
   \<and> weeklyDocs (snd (deleteStaffFromList hookA ''s1'' True True)) ''2024-06-10''
       = Some \<lparr> weekStartDate = ''2024-06-10'', staff = [] \<rparr>
   \<and> weeklyDocs (snd (deleteStaffFromList hookA ''s1'' True True)) ''2024-06-03''
       = Some weekOther"
proof -
  have "fst (deleteStaffFromList hookA ''s1'' True True) = True"
    by (simp add: deleteStaffFromList_def hookA_def Let_def saveGlobalSettings_def
        safetyCheck_def exA orEmpty_def reindex_def)
  then have a: "deleteStaffFromList hookA ''s1'' True True
     = (True, snd (deleteStaffFromList hookA ''s1'' True True))"
    by (cases "deleteStaffFromList hookA ''s1'' True True") simp
  have b: "currentWeeklySchedule hookA = Some weekA" by (simp add: hookA_def)
  have c: "''s1'' \<in> ws_staffId ` set (staff weekA)" by (simp add: weekA_def)
  have d: "currentWeekStartDate hookA = ''2024-06-10''" by (simp add: hookA_def)
  have e: "weeklyDocs hookA ''2024-06-03'' = Some weekOther" by (simp add: hookA_def)
  have f: "weekA \<lparr> staff := filter (\<lambda>s. ws_staffId s \<noteq> ''s1'') (staff weekA) \<rparr>
             = \<lparr> weekStartDate = ''2024-06-10'', staff = [] \<rparr>"
    by (simp add: weekA_def)
  have g: "weekStartDate weekA = ''2024-06-10''"
    "filter (\<lambda>s. ws_staffId s \<noteq> ''s1'') (staff weekA) = []"
    by (simp_all add: weekA_def)
  from delete_removes_week_record[OF a b c] a b c d e f g show ?thesis by simp
qed

section \<open>Roster mutations keep the sort orders dense\<close>

lemma insertSorted_front:
  "ys = [] \<or> cmp x (hd ys) \<le> 0 \<Longrightarrow> insertSorted cmp x ys = x # ys"
  by (cases ys) auto

lemma jsSort_sorted_id:
  "sorted_wrt (\<lambda>a b. cmp a b \<le> 0) xs \<Longrightarrow> jsSort cmp xs = xs"
proof (induction xs)
  case Nil
  then show ?case by simp
next
  case (Cons x xs)
  then have "jsSort cmp xs = xs" by simp
  moreover have "xs = [] \<or> cmp x (hd xs) \<le> 0"
    using Cons.prems by (cases xs) auto
  ultimately show ?case by (simp add: insertSorted_front)
qed

lemma dense_nth: "dense xs \<Longrightarrow> i < length xs \<Longrightarrow> sm_sortOrder (xs ! i) = Some (int i)"
proof -
  assume d: "dense xs" and i: "i < length xs"
  have "sm_sortOrder (xs ! i) = map sm_sortOrder xs ! i" using i by simp
  also have "\<dots> = map (\<lambda>i. Some (int i)) [0..<length xs] ! i" using d by (simp add: dense_def)
  also have "\<dots> = Some (int i)" using i by simp
  finally show ?thesis .
qed

lemma dense_sorted: "dense xs \<Longrightarrow> sorted_wrt (\<lambda>a b. bySortOrder a b \<le> 0) xs"
  by (auto simp: sorted_wrt_iff_nth_less dense_nth bySortOrder_def jsMinus_def)

lemma jsSort_dense: "dense xs \<Longrightarrow> jsSort bySortOrder xs = xs"
  by (rule jsSort_sorted_id) (rule dense_sorted)

lemma map_fst_zip_fun:
  "length as = length bs \<Longrightarrow> map (\<lambda>p. f (fst p)) (zip as bs) = map f as"
  by (induction as bs rule: list_induct2) auto

lemma map_snd_zip_fun:
  "length as = length bs \<Longrightarrow> map (\<lambda>p. f (snd p)) (zip as bs) = map f bs"
  by (induction as bs rule: list_induct2) auto

lemma reindex_sortOrder: "map sm_sortOrder (reindex xs) = map (\<lambda>i. Some (int i)) [0..<length xs]"
  using map_fst_zip_fun[of "[0..<length xs]" xs "\<lambda>i. Some (int i)"]
  by (simp add: reindex_def enumerate_eq_zip comp_def)

lemma length_reindex: "length (reindex xs) = length xs"
  by (simp add: reindex_def)

lemma dense_reindex: "dense (reindex xs)"
  by (simp add: dense_def reindex_sortOrder length_reindex)

lemma reindex_ids: "map sm_id (reindex xs) = map sm_id xs"
  using map_snd_zip_fun[of "[0..<length xs]" xs sm_id]
  by (simp add: reindex_def enumerate_eq_zip comp_def)

lemma staffList_mergeDoc:
  "staffList (mergeDoc old (settingsToSave new)) = Some (jsSort bySortOrder (orEmpty (staffList new)))"
  by (simp add: mergeDoc_def settingsToSave_def mergeField_def split: option.splits)

lemma persisted_after_save:
  "saveGlobalSettings st (Some new) bypass writeOk = (True, st') \<Longrightarrow>
     persistedStaffList st' = jsSort bySortOrder (orEmpty (staffList new))"
  by (drule saveGlobalSettings_True)
     (auto simp: persistedStaffList_def roster_def staffList_mergeDoc orEmpty_def)

lemma dense_append:
  "dense xs \<Longrightarrow> sm_sortOrder x = Some (int (length xs)) \<Longrightarrow> dense (xs @ [x])"
  by (simp add: dense_def)

lemma dense_map_same:
  "dense xs \<Longrightarrow> map sm_sortOrder (map f xs) = map sm_sortOrder xs \<Longrightarrow> dense (map f xs)"
  by (simp add: dense_def)


lemma settingsDoc_saveWeeklySchedule:
  "settingsDoc (snd (saveWeeklySchedule st k d writeOk)) = settingsDoc st"
  by (simp add: saveWeeklySchedule_def split: option.splits)

lemma settingsDoc_removeStaffFromWeeklySchedule:
  "settingsDoc (removeStaffFromWeeklySchedule st sid writeOk) = settingsDoc st"
  by (simp add: removeStaffFromWeeklySchedule_def Let_def settingsDoc_saveWeeklySchedule
      split: option.splits)

lemma persisted_removeStaffFromWeeklySchedule:
  "persistedStaffList (removeStaffFromWeeklySchedule st sid writeOk) = persistedStaffList st"
  by (simp add: persistedStaffList_def settingsDoc_removeStaffFromWeeklySchedule)

lemma delete_persisted:
  assumes "globalSettings st = Some gs"
    and "deleteStaffFromList st sid w1 w2 = (True, st')"
  shows "persistedStaffList st' = reindex (filter (\<lambda>s. sm_id s \<noteq> sid) (orEmpty (staffList gs)))"
proof -
  define new where
    "new = gs \<lparr> staffList := Some (reindex (filter (\<lambda>s. sm_id s \<noteq> sid) (orEmpty (staffList gs)))) \<rparr>"
  define saved where "saved = saveGlobalSettings st (Some new) False w1"
  from assms have f: "fst saved = True"
    by (auto simp: deleteStaffFromList_def Let_def saved_def new_def split: if_splits)
  then have s: "saveGlobalSettings st (Some new) False w1 = (True, snd saved)"
    by (cases saved) (simp add: saved_def)
  from assms have "persistedStaffList st' = persistedStaffList (snd saved)"
    by (auto simp: deleteStaffFromList_def Let_def saved_def new_def
        persisted_removeStaffFromWeeklySchedule split: if_splits)
  also have "\<dots> = jsSort bySortOrder (orEmpty (staffList new))"
    by (rule persisted_after_save[OF s])
  also have "\<dots> = reindex (filter (\<lambda>s. sm_id s \<noteq> sid) (orEmpty (staffList gs)))"
    by (simp add: new_def orEmpty_def jsSort_dense dense_reindex)
  finally show ?thesis .
qed

lemma reorder_persisted:
  assumes "globalSettings st = Some gs"
    and "updateStaffListOrder st ordered w1 = (True, st')"
  shows "persistedStaffList st' = reindex ordered"
proof -
  from assms have "saveGlobalSettings st (Some (gs \<lparr> staffList := Some (reindex ordered) \<rparr>)) False w1
      = (True, st')"
    by (simp add: updateStaffListOrder_def)
  from persisted_after_save[OF this] show ?thesis
    by (simp add: orEmpty_def jsSort_dense dense_reindex)
qed

lemma add_persisted:
  assumes "globalSettings st = Some gs"
    and "addStaffToList st new w1 = (True, st')"
    and "dense (orEmpty (staffList gs))" and "sm_sortOrder new = None"
  shows "persistedStaffList st'
           = orEmpty (staffList gs)
             @ [new \<lparr> sm_sortOrder := Some (int (length (orEmpty (staffList gs)))) \<rparr>]
         \<and> \<not> list_ex (\<lambda>s. sm_id s = sm_id new) (orEmpty (staffList gs))"
proof -
  let ?xs = "orEmpty (staffList gs)"
  let ?l = "?xs @ [new \<lparr> sm_sortOrder := Some (int (length ?xs)) \<rparr>]"
  have d: "dense ?l" using assms(3) by (simp add: dense_append)
  from assms(1,2) have n: "\<not> list_ex (\<lambda>s. sm_id s = sm_id new) ?xs"
    by (auto simp: addStaffToList_def split: if_splits)
  from assms(1,2,4) n
  have "saveGlobalSettings st (Some (gs \<lparr> staffList := Some (jsSort bySortOrder ?l) \<rparr>)) False w1
      = (True, st')"
    by (auto simp: addStaffToList_def Let_def nullish_def split: if_splits)
  from persisted_after_save[OF this] d n show ?thesis
    by (simp add: orEmpty_def jsSort_dense)
qed

lemma update_persisted:
  assumes "globalSettings st = Some gs"
    and "updateStaffInList st patch w1 = (True, st')"
    and "dense (orEmpty (staffList gs))" and "sm_sortOrder patch = None"
  shows "persistedStaffList st'
           = map (\<lambda>s. if sm_id s = sm_id patch then spread s patch else s) (orEmpty (staffList gs))"
proof -
  let ?f = "\<lambda>s. if sm_id s = sm_id patch then spread s patch else s"
  let ?xs = "orEmpty (staffList gs)"
  have "map sm_sortOrder (map ?f ?xs) = map sm_sortOrder ?xs"
    using assms(4) by (simp add: spread_def mergeField_def)
  then have d: "dense (map ?f ?xs)" by (rule dense_map_same[OF assms(3)])
  from assms(1,2)
  have "saveGlobalSettings st (Some (gs \<lparr> staffList := Some (jsSort bySortOrder (map ?f ?xs)) \<rparr>)) False w1
      = (True, st')"
    by (auto simp: updateStaffInList_def Let_def split: if_splits)
  from persisted_after_save[OF this] d show ?thesis
    by (simp add: orEmpty_def jsSort_dense)
qed

text \<open>
  Claim C7, as the code has it. With settings loaded, the staff list a successful
  mutation stores is dense, its \<open>i\<close>-th member having \<^verbatim>\<open>sortOrder\<close> \<open>i\<close>,
  \<^item> after a removal, whatever the roster was: the stored list is the roster without the
    member, in its prior order, renumbered;
  \<^item> after a reorder, whatever the roster was: the stored list is the given list,
    renumbered;
  \<^item> after adding a member that brings no \<^verbatim>\<open>sortOrder\<close> of its own to a dense roster:
    the member is appended;
  \<^item> after updating a member of a dense roster with data that carries no
    \<^verbatim>\<open>sortOrder\<close>.
  Ids stay unique under removal and addition, are unchanged by an update, and after a
  reorder are those of the given list.
\<close>

theorem roster_mutations_dense:
  assumes "globalSettings st = Some gs"
  shows
   "(deleteStaffFromList st sid ok ok' = (True, st') \<longrightarrow>
       dense (persistedStaffList st')
       \<and> persistedStaffList st' = reindex (filter (\<lambda>s. sm_id s \<noteq> sid) (orEmpty (staffList gs)))
       \<and> map sm_id (persistedStaffList st')
           = filter (\<lambda>i. i \<noteq> sid) (map sm_id (orEmpty (staffList gs)))
       \<and> (distinct (map sm_id (orEmpty (staffList gs)))
            \<longrightarrow> distinct (map sm_id (persistedStaffList st'))))
    \<and> (updateStaffListOrder st ordered ok = (True, st') \<longrightarrow>
         dense (persistedStaffList st')
         \<and> map sm_id (persistedStaffList st') = map sm_id ordered)
    \<and> (addStaffToList st new ok = (True, st') \<and> dense (orEmpty (staffList gs))
         \<and> sm_sortOrder new = None \<longrightarrow>
         dense (persistedStaffList st')
         \<and> map sm_id (persistedStaffList st') = map sm_id (orEmpty (staffList gs)) @ [sm_id new]
         \<and> (distinct (map sm_id (orEmpty (staffList gs)))
              \<longrightarrow> distinct (map sm_id (persistedStaffList st'))))
    \<and> (updateStaffInList st patch ok = (True, st') \<and> dense (orEmpty (staffList gs))
         \<and> sm_sortOrder patch = None \<longrightarrow>
         dense (persistedStaffList st')
         \<and> map sm_id (persistedStaffList st') = map sm_id (orEmpty (staffList gs)))"
proof (intro conjI impI)
  assume a: "deleteStaffFromList st sid ok ok' = (True, st')"
  note p = delete_persisted[OF assms a]
  show "dense (persistedStaffList st')" by (simp add: p dense_reindex)
  show "persistedStaffList st' = reindex (filter (\<lambda>s. sm_id s \<noteq> sid) (orEmpty (staffList gs)))"
    by (rule p)
  show i: "map sm_id (persistedStaffList st')
           = filter (\<lambda>i. i \<noteq> sid) (map sm_id (orEmpty (staffList gs)))"
    by (simp add: p reindex_ids filter_map comp_def)
  assume "distinct (map sm_id (orEmpty (staffList gs)))"
  then show "distinct (map sm_id (persistedStaffList st'))"
    unfolding i by (rule distinct_filter)
next
  assume a: "updateStaffListOrder st ordered ok = (True, st')"
  note p = reorder_persisted[OF assms a]
  show "dense (persistedStaffList st')" by (simp add: p dense_reindex)
  show "map sm_id (persistedStaffList st') = map sm_id ordered" by (simp add: p reindex_ids)
next
  assume a: "addStaffToList st new ok = (True, st') \<and> dense (orEmpty (staffList gs))
         \<and> sm_sortOrder new = None"
  then have p: "persistedStaffList st'
           = orEmpty (staffList gs)
             @ [new \<lparr> sm_sortOrder := Some (int (length (orEmpty (staffList gs)))) \<rparr>]"
    and n: "\<not> list_ex (\<lambda>s. sm_id s = sm_id new) (orEmpty (staffList gs))"
    using add_persisted[OF assms] by blast+
  show "dense (persistedStaffList st')" using a by (simp add: p dense_append)
  show "map sm_id (persistedStaffList st') = map sm_id (orEmpty (staffList gs)) @ [sm_id new]"
    by (simp add: p)
  assume "distinct (map sm_id (orEmpty (staffList gs)))"
  then show "distinct (map sm_id (persistedStaffList st'))"
    using n by (auto simp: p list_ex_iff)
next
  assume a: "updateStaffInList st patch ok = (True, st') \<and> dense (orEmpty (staffList gs))
         \<and> sm_sortOrder patch = None"
  then have p: "persistedStaffList st'
           = map (\<lambda>s. if sm_id s = sm_id patch then spread s patch else s) (orEmpty (staffList gs))"
    using update_persisted[OF assms] by blast
  have s: "map sm_sortOrder (persistedStaffList st') = map sm_sortOrder (orEmpty (staffList gs))"
    using a by (simp add: p spread_def mergeField_def)
  show "dense (persistedStaffList st')"
    unfolding p using a s[unfolded p] by (blast intro: dense_map_same)
  show "map sm_id (persistedStaffList st') = map sm_id (orEmpty (staffList gs))"
    by (simp add: p spread_def)
qed


text \<open>The definitions a concrete save is computed with.\<close>

lemmas evSave = saveGlobalSettings_def safetyCheck_def settingsToSave_def mergeDoc_def mergeField_def
  persistedStaffList_def roster_def orEmpty_def bySortOrder_def jsMinus_def Let_def nullish_def

lemma pair_fst_True: "fst p = True \<Longrightarrow> p = (True, snd p)"
  by (cases p) simp

text \<open>
  The claim as the specification words it fails for a new member that brings a
  \<^verbatim>\<open>sortOrder\<close>: added to a dense roster with unique ids, it leaves two members
  with the \<^verbatim>\<open>sortOrder\<close> \<open>0\<close>.
\<close>

theorem roster_mutations_dense_counterexample:
  "dense (roster (globalSettings hookA))
   \<and> distinct (map sm_id (roster (globalSettings hookA)))
   \<and> sm_sortOrder memberWithOrder = Some 0
   \<and> fst (addStaffToList hookA memberWithOrder True) = True
   \<and> map sm_sortOrder (persistedStaffList (snd (addStaffToList hookA memberWithOrder True)))
       = [Some 0, Some 0, Some 1, Some 2]
   \<and> \<not> dense (persistedStaffList (snd (addStaffToList hookA memberWithOrder True)))"
proof -
  let ?P = "persistedStaffList (snd (addStaffToList hookA memberWithOrder True))"
  have d: "dense (roster (globalSettings hookA))"
    by (simp add: hookA_def exA roster_def orEmpty_def dense_def upt_rec[of 0] upt_rec[of 1]
        upt_rec[of 2])
  have i: "distinct (map sm_id (roster (globalSettings hookA)))"
    by (simp add: hookA_def exA roster_def orEmpty_def)
  have o: "sm_sortOrder memberWithOrder = Some 0"
    by (simp add: memberWithOrder_def member_def)
  have f: "fst (addStaffToList hookA memberWithOrder True) = True"
    by (simp add: addStaffToList_def hookA_def memberWithOrder_def exA evSave)
  have m: "map sm_sortOrder ?P = [Some 0, Some 0, Some 1, Some 2]"
    by (simp add: addStaffToList_def hookA_def memberWithOrder_def exA evSave)
  have n: "\<not> dense ?P"
  proof
    assume "dense ?P"
    moreover have l: "length ?P = 4"
    proof -
      have "length (map sm_sortOrder ?P) = 4" unfolding m by simp
      then show ?thesis by simp
    qed
    ultimately have "sm_sortOrder (?P ! 1) = Some 1" using dense_nth[of ?P 1] by simp
    moreover have "map sm_sortOrder ?P ! 1 = Some 0" by (simp add: m)
    ultimately show False using l by simp
  qed
  from d i o f m n show ?thesis by blast
qed


theorem roster_mutations_dense_witness:
  "globalSettings hookA = Some settingsA
   \<and> deleteStaffFromList hookA ''s2'' True True
       = (True, snd (deleteStaffFromList hookA ''s2'' True True))
   \<and> dense (persistedStaffList (snd (deleteStaffFromList hookA ''s2'' True True)))
   \<and> map sm_id (persistedStaffList (snd (deleteStaffFromList hookA ''s2'' True True)))
       = [''s1'', ''s3'']
   \<and> updateStaffListOrder hookA (rev rosterA) True
       = (True, snd (updateStaffListOrder hookA (rev rosterA) True))
   \<and> dense (persistedStaffList (snd (updateStaffListOrder hookA (rev rosterA) True)))
   \<and> map sm_id (persistedStaffList (snd (updateStaffListOrder hookA (rev rosterA) True)))
       = [''s3'', ''s2'', ''s1'']
   \<and> addStaffToList hookA memberNoOrder True
       = (True, snd (addStaffToList hookA memberNoOrder True))
   \<and> dense (orEmpty (staffList settingsA)) \<and> sm_sortOrder memberNoOrder = None
   \<and> dense (persistedStaffList (snd (addStaffToList hookA memberNoOrder True)))
   \<and> map sm_id (persistedStaffList (snd (addStaffToList hookA memberNoOrder True)))
       = [''s1'', ''s2'', ''s3'', ''s9'']
   \<and> updateStaffInList hookA patchName True
       = (True, snd (updateStaffInList hookA patchName True))
   \<and> sm_sortOrder patchName = None
   \<and> dense (persistedStaffList (snd (updateStaffInList hookA patchName True)))
   \<and> map sm_id (persistedStaffList (snd (updateStaffInList hookA patchName True)))
       = [''s1'', ''s2'', ''s3'']
   \<and> distinct (map sm_id (orEmpty (staffList settingsA)))
   \<and> distinct (map sm_id (persistedStaffList (snd (deleteStaffFromList hookA ''s2'' True True))))
   \<and> distinct (map sm_id (persistedStaffList (snd (addStaffToList hookA memberNoOrder True))))"
proof -
  have g: "globalSettings hookA = Some settingsA" by (simp add: hookA_def)
  have i: "distinct (map sm_id (orEmpty (staffList settingsA)))"
    by (simp add: exA orEmpty_def)
  have r: "map sm_id (orEmpty (staffList settingsA)) = [''s1'', ''s2'', ''s3'']"
    "map sm_id (rev rosterA) = [''s3'', ''s2'', ''s1'']"
    by (simp_all add: exA orEmpty_def)
  have d: "dense (orEmpty (staffList settingsA))"
    by (simp add: exA orEmpty_def dense_def upt_rec[of 0] upt_rec[of 1] upt_rec[of 2])
  have n: "sm_sortOrder memberNoOrder = None" "sm_sortOrder patchName = None"
    "sm_id memberNoOrder = ''s9''"
    by (simp_all add: memberNoOrder_def patchName_def member_def)
  have a: "deleteStaffFromList hookA ''s2'' True True
       = (True, snd (deleteStaffFromList hookA ''s2'' True True))"
    by (rule pair_fst_True)
       (simp add: deleteStaffFromList_def hookA_def exA evSave reindex_def)
  have b: "updateStaffListOrder hookA (rev rosterA) True
       = (True, snd (updateStaffListOrder hookA (rev rosterA) True))"
    by (rule pair_fst_True)
       (simp add: updateStaffListOrder_def hookA_def exA evSave reindex_def)
  have c: "addStaffToList hookA memberNoOrder True
       = (True, snd (addStaffToList hookA memberNoOrder True))"
    by (rule pair_fst_True)
       (simp add: addStaffToList_def hookA_def memberNoOrder_def exA evSave)
  have e: "updateStaffInList hookA patchName True
       = (True, snd (updateStaffInList hookA patchName True))"
    by (rule pair_fst_True)
       (simp add: updateStaffInList_def hookA_def patchName_def exA evSave spread_def)
  note A0 = roster_mutations_dense[OF g, where st' = "snd (deleteStaffFromList hookA ''s2'' True True)"
      and sid = "''s2''" and ok = True and ok' = True, THEN conjunct1, THEN mp, OF a]
  have A: "dense (persistedStaffList (snd (deleteStaffFromList hookA ''s2'' True True)))
     \<and> map sm_id (persistedStaffList (snd (deleteStaffFromList hookA ''s2'' True True)))
         = [''s1'', ''s3'']"
    using A0[THEN conjunct1] A0[THEN conjunct2, THEN conjunct2, THEN conjunct1] unfolding r
    by simp
  note B0 = roster_mutations_dense[OF g, where st' = "snd (updateStaffListOrder hookA (rev rosterA) True)"
      and ordered = "rev rosterA" and ok = True,
      THEN conjunct2, THEN conjunct1, THEN mp, OF b]
  have B: "dense (persistedStaffList (snd (updateStaffListOrder hookA (rev rosterA) True)))
     \<and> map sm_id (persistedStaffList (snd (updateStaffListOrder hookA (rev rosterA) True)))
         = [''s3'', ''s2'', ''s1'']"
    using B0 unfolding r by simp
  note C0 = roster_mutations_dense[OF g, where st' = "snd (addStaffToList hookA memberNoOrder True)"
      and new = memberNoOrder and ok = True,
      THEN conjunct2, THEN conjunct2, THEN conjunct1, THEN mp, OF conjI[OF c conjI[OF d n(1)]]]
  have C: "dense (persistedStaffList (snd (addStaffToList hookA memberNoOrder True)))
     \<and> map sm_id (persistedStaffList (snd (addStaffToList hookA memberNoOrder True)))
         = [''s1'', ''s2'', ''s3'', ''s9'']"
    using C0 unfolding r n(3) by simp
  note D0 = roster_mutations_dense[OF g, where st' = "snd (updateStaffInList hookA patchName True)"
      and patch = patchName and ok = True,
      THEN conjunct2, THEN conjunct2, THEN conjunct2, THEN mp, OF conjI[OF e conjI[OF d n(2)]]]
  have D: "dense (persistedStaffList (snd (updateStaffInList hookA patchName True)))
     \<and> map sm_id (persistedStaffList (snd (updateStaffInList hookA patchName True)))
         = [''s1'', ''s2'', ''s3'']"
    using D0 unfolding r by simp
  note E = A0[THEN conjunct2, THEN conjunct2, THEN conjunct2, THEN mp, OF i]
  note F = C0[THEN conjunct2, THEN conjunct2, THEN mp, OF i]
  from g a b c d e n A B C D i E F show ?thesis by blast
qed

section \<open>The schedule copy\<close>




















section \<open>The repository's tests of the view\<close>

text \<open>
  The model yields what the tests of \<^verbatim>\<open>getStaffByUnit\<close> in
  \<^verbatim>\<open>useStaffData.test.js\<close> expect of their mock data: the order of the buckets and of
  their entries, the flags and display strings of the orphaned entry, the names, and the
  empty view without an active member or without settings.
\<close>

lemmas exMock = mockGlobalSettingsData_def mockWeeklyScheduleData_def mockMember_def
  mockOverride_def suni_def maci_def csibe_def kgyn_def dajka_def szakacs_def nagyMaria_def
  vargaPal_def kissJozsefne_def kovacsIstvan_def

lemma repository_tests_view:
  "map_sum id (\<lambda>view. map (\<lambda>p. (fst p, map e_staffId (snd p))) (Object_entries view))
     (getStaffByUnit lc False False (Some mockGlobalSettingsData) (Some mockWeeklyScheduleData))
   = Inr [(''I.'', [''s1'', ''s5'']), (''II.'', [''s2'', ''s8'', ''s7'']), (''Konyha'', [''s3'']),
          (''Orphaned Unit'', [''s6''])]"
  by (simp add: ev exMock Object_entries_def)

lemma repository_tests_orphan:
  "map_sum id (\<lambda>view.
       map (\<lambda>e. (e_staffId e, e_isOrphanedUnit e, e_displayUnit e, e_isOrphanedGroup e,
                  e_displayGroup e, e_isOrphanedJobTitle e, e_displayJobTitle e))
         (orEmpty (objGet view ''Orphaned Unit'')))
     (getStaffByUnit lc False False (Some mockGlobalSettingsData) (Some mockWeeklyScheduleData))
   = Inr [(''s6'', True, ''Orphaned Unit'' @ deletedSuffix, True, ''Orphaned Group'' @ deletedSuffix,
           True, ''Orphaned Job'' @ deletedSuffix)]
   \<and> map_sum id (\<lambda>view.
         map (\<lambda>e. (e_staffId e, e_name e, e_isOrphanedUnit e, e_displayUnit e))
           (orEmpty (objGet view ''I.'')))
       (getStaffByUnit lc False False (Some mockGlobalSettingsData) (Some mockWeeklyScheduleData))
     = Inr [(''s1'', Some nagyMaria, False, ''I.''), (''s5'', Some vargaPal, False, ''I.'')]"
  by (simp add: ev exMock)

lemma repository_tests_no_active:
  "getStaffByUnit lc False False
     (Some (mockGlobalSettingsData
        \<lparr> staffList := Some (map (\<lambda>s. s \<lparr> sm_isActive := Some False \<rparr>)
                                (orEmpty (staffList mockGlobalSettingsData))) \<rparr>))
     (Some mockWeeklyScheduleData) = Inr []
   \<and> getStaffByUnit lc False False None (Some mockWeeklyScheduleData) = Inr []"
  by (simp add: getStaffByUnit_def exMock orEmpty_def isActive_def)

end
